theory Spec2Isabelle
  imports Complex_Main
begin

section \<open>Block types (client \<open>Block.js\<close>, server \<open>terrain\<close> module)\<close>

text \<open>
  Both sides declare the same table \<open>BlockType = { AIR: 'air', GRASS: 'grass', ... }\<close>.
  The seven strings are the only cell values the generator writes.
\<close>

datatype BlockType = AIR | GRASS | DIRT | STONE | WOOD | LEAVES | WATER

definition CHUNK_SIZE :: nat where
  "CHUNK_SIZE = 16"

definition CHUNK_HEIGHT :: nat where
  "CHUNK_HEIGHT = 64"

text \<open>\<open>BlockColors\<close> and \<open>Block.getColor\<close>; every block type has an entry, so the magenta
  fallback of \<open>getColor\<close> is never taken for a \<open>BlockType\<close>.\<close>

definition BlockColors :: "BlockType \<Rightarrow> string" where
  "BlockColors t = (case t of
       GRASS \<Rightarrow> ''#7EC850''
     | DIRT \<Rightarrow> ''#8B4513''
     | STONE \<Rightarrow> ''#808080''
     | WOOD \<Rightarrow> ''#8B4513''
     | LEAVES \<Rightarrow> ''#228B22''
     | WATER \<Rightarrow> ''#4A90E2''
     | AIR \<Rightarrow> ''#000000'')"

definition getColor :: "BlockType \<Rightarrow> string" where
  "getColor blockType = BlockColors blockType"

text \<open>The static \<open>Block.isSolid(blockType)\<close> of the client.\<close>

definition Block_isSolid :: "BlockType \<Rightarrow> bool" where
  "Block_isSolid blockType = (blockType \<noteq> AIR)"

section \<open>Client: chunk data and the face exposure check\<close>

text \<open>
  \<open>chunkData\<close> is the three-dimensional array \<open>[x][y][z]\<close> of block types, of shape
  \<open>CHUNK_SIZE \<times> CHUNK_HEIGHT \<times> CHUNK_SIZE\<close>. The meshers only read it, and only at
  indices inside that shape; \<open>wf_chunkData\<close> states the shape. Arrays of another
  shape, where a read can throw, are not grids and are outside the model.
\<close>

type_synonym chunkData = "BlockType list list list"

definition wf_chunkData :: "chunkData \<Rightarrow> bool" where
  "wf_chunkData c \<longleftrightarrow>
     length c = CHUNK_SIZE \<and>
     list_all (\<lambda>plane. length plane = CHUNK_HEIGHT \<and>
                 list_all (\<lambda>row. length row = CHUNK_SIZE) plane) c"

definition getBlock :: "chunkData \<Rightarrow> int \<Rightarrow> int \<Rightarrow> int \<Rightarrow> BlockType" where
  "getBlock c x y z =
     (if x < 0 \<or> x \<ge> int CHUNK_SIZE \<or> y < 0 \<or> y \<ge> int CHUNK_HEIGHT \<or>
         z < 0 \<or> z \<ge> int CHUNK_SIZE
      then AIR
      else c ! nat x ! nat y ! nat z)"

definition shouldRenderFace ::
  "chunkData \<Rightarrow> int \<Rightarrow> int \<Rightarrow> int \<Rightarrow> int \<times> int \<times> int \<Rightarrow> bool" where
  "shouldRenderFace c x y z direction =
     (case direction of (dx, dy, dz) \<Rightarrow>
        let neighborType = getBlock c (x + dx) (y + dy) (z + dz)
        in neighborType = AIR)"

section \<open>Client: the naive mesher\<close>

text \<open>
  A mesher pushes, for every quad it emits, four vertices (twelve numbers) to
  \<open>vertices\<close>, the face normal four times to \<open>normals\<close>, the colour four times to
  \<open>colors\<close> and six indices to \<open>indices\<close>. A \<open>quad\<close> records what one such group of
  pushes holds; the buffers are rebuilt from the emitted quads by \<open>pushQuad\<close>, in the
  order of emission.
\<close>

record face =
  normal :: "int \<times> int \<times> int"
  vertices :: "(int \<times> int \<times> int) list"
  dir :: "int \<times> int \<times> int"

definition faces :: "face list" where
  "faces =
    [ \<lparr>normal = (0, 0, 1), vertices = [(0, 0, 1), (1, 0, 1), (1, 1, 1), (0, 1, 1)], dir = (0, 0, 1)\<rparr>,
      \<lparr>normal = (0, 0, -1), vertices = [(1, 0, 0), (0, 0, 0), (0, 1, 0), (1, 1, 0)], dir = (0, 0, -1)\<rparr>,
      \<lparr>normal = (0, 1, 0), vertices = [(0, 1, 0), (0, 1, 1), (1, 1, 1), (1, 1, 0)], dir = (0, 1, 0)\<rparr>,
      \<lparr>normal = (0, -1, 0), vertices = [(0, 0, 0), (1, 0, 0), (1, 0, 1), (0, 0, 1)], dir = (0, -1, 0)\<rparr>,
      \<lparr>normal = (1, 0, 0), vertices = [(1, 0, 0), (1, 0, 1), (1, 1, 1), (1, 1, 0)], dir = (1, 0, 0)\<rparr>,
      \<lparr>normal = (-1, 0, 0), vertices = [(0, 0, 1), (0, 0, 0), (0, 1, 0), (0, 1, 1)], dir = (-1, 0, 0)\<rparr> ]"

record quad =
  corners :: "(int \<times> int \<times> int) list"
  qnormal :: "int \<times> int \<times> int"
  qtype :: BlockType

text \<open>The channels \<open>r\<close>, \<open>g\<close>, \<open>b\<close> of \<open>new THREE.Color(hex)\<close>, kept symbolic.\<close>

datatype channel = ColorR string | ColorG string | ColorB string

record buffers =
  bvertices :: "int list"
  bnormals :: "int list"
  bcolors :: "channel list"
  bindices :: "nat list"
  vertexOffset :: nat

definition emptyBuffers :: buffers where
  "emptyBuffers = \<lparr>bvertices = [], bnormals = [], bcolors = [], bindices = [], vertexOffset = 0\<rparr>"

definition triple :: "'a \<times> 'a \<times> 'a \<Rightarrow> 'a list" where
  "triple p = (case p of (a, b, c) \<Rightarrow> [a, b, c])"

definition pushQuad :: "quad \<Rightarrow> buffers \<Rightarrow> buffers" where
  "pushQuad q b =
     (let blockColor = getColor (qtype q); vo = vertexOffset b in
      \<lparr>bvertices = bvertices b @ concat (map triple (corners q)),
       bnormals = bnormals b @ concat (replicate 4 (triple (qnormal q))),
       bcolors = bcolors b @ concat (replicate 4 [ColorR blockColor, ColorG blockColor, ColorB blockColor]),
       bindices = bindices b @ [vo + 0, vo + 1, vo + 2, vo + 0, vo + 2, vo + 3],
       vertexOffset = vo + 4\<rparr>)"

text \<open>The returned \<open>THREE.Mesh\<close>: its geometry attributes and index (the material is a
  constant). \<open>None\<close> is the \<open>null\<close> both meshers return when \<open>vertices.length === 0\<close>.\<close>

record mesh =
  position :: "int list"
  normalAttr :: "int list"
  colorAttr :: "channel list"
  index :: "nat list"

definition finishMesh :: "buffers \<Rightarrow> mesh option" where
  "finishMesh b =
     (if length (bvertices b) = 0 then None
      else Some \<lparr>position = bvertices b, normalAttr = bnormals b,
                 colorAttr = bcolors b, index = bindices b\<rparr>)"

text \<open>The body of the three nested loops of \<open>createSimpleChunkMesh\<close> at cell \<open>(x, y, z)\<close>:
  the quads of the exposed faces, in the order of \<open>faces\<close>; \<open>faceQuad\<close> is what the loop
  over \<open>face.vertices\<close> pushes for one face.\<close>

definition faceQuad :: "nat \<Rightarrow> nat \<Rightarrow> nat \<Rightarrow> BlockType \<Rightarrow> face \<Rightarrow> quad" where
  "faceQuad x y z blockType f =
     \<lparr>corners = map (\<lambda>(vx, vy, vz). (int x + vx, int y + vy, int z + vz)) (vertices f),
      qnormal = normal f, qtype = blockType\<rparr>"

definition cellQuads :: "chunkData \<Rightarrow> nat \<Rightarrow> nat \<Rightarrow> nat \<Rightarrow> quad list" where
  "cellQuads c x y z =
     (let blockType = c ! x ! y ! z in
      if blockType = AIR then []
      else map (faceQuad x y z blockType)
             (filter (\<lambda>f. shouldRenderFace c (int x) (int y) (int z) (dir f)) faces))"

definition simpleQuads :: "chunkData \<Rightarrow> quad list" where
  "simpleQuads c =
     concat (map (\<lambda>x. concat (map (\<lambda>y. concat (map (\<lambda>z. cellQuads c x y z)
        [0..<CHUNK_SIZE])) [0..<CHUNK_HEIGHT])) [0..<CHUNK_SIZE])"

definition createSimpleChunkMesh :: "chunkData \<Rightarrow> mesh option" where
  "createSimpleChunkMesh c = finishMesh (fold pushQuad (simpleQuads c) emptyBuffers)"

text \<open>\<open>createChunkMesh\<close>: "For now, use simple meshing".\<close>

definition createChunkMesh :: "chunkData \<Rightarrow> mesh option" where
  "createChunkMesh c = createSimpleChunkMesh c"

section \<open>Client: the greedy mesher\<close>

text \<open>
  \<open>dims\<close> is read as \<open>dims[axis][axis]\<close>, \<open>dims[axis][u]\<close> and \<open>dims[axis][v]\<close> with
  \<open>u = (axis + 1) % 3\<close> and \<open>v = (axis + 2) % 3\<close>; \<open>d\<close> and \<open>q\<close> are the three-element
  arrays of the source, and \<open>d\<close> is passed to \<open>getBlock\<close> as \<open>(x, y, z)\<close>.
  The mask holds \<open>null\<close> (\<open>None\<close>) or a block type. Every mask index the loops use is
  below \<open>dims[axis][u] * dims[axis][v]\<close>, the length of the mask.
\<close>

definition dims :: "nat list list" where
  "dims = [ [CHUNK_SIZE, CHUNK_HEIGHT, CHUNK_SIZE],
            [CHUNK_HEIGHT, CHUNK_SIZE, CHUNK_SIZE],
            [CHUNK_SIZE, CHUNK_SIZE, CHUNK_HEIGHT] ]"

type_synonym mask = "BlockType option list"

text \<open>The body of the two mask-building loops, with \<open>d[axis]\<close>, \<open>d[u]\<close>, \<open>d[v]\<close> set.\<close>

definition maskCell :: "chunkData \<Rightarrow> nat \<Rightarrow> nat list \<Rightarrow> mask \<Rightarrow> mask" where
  "maskCell c axis d msk =
     (let u = (axis + 1) mod 3; v = (axis + 2) mod 3;
          q = [0, 0, 0][axis := 1];
          blockType = getBlock c (int (d ! 0)) (int (d ! 1)) (int (d ! 2));
          neighborType = getBlock c (int (d ! 0 + q ! 0)) (int (d ! 1 + q ! 1)) (int (d ! 2 + q ! 2))
      in if blockType \<noteq> AIR \<and> neighborType = AIR
         then msk[d ! u + d ! v * dims ! axis ! u := Some blockType]
         else msk)"

definition buildMask :: "chunkData \<Rightarrow> nat \<Rightarrow> nat \<Rightarrow> mask" where
  "buildMask c axis s =
     (let u = (axis + 1) mod 3; v = (axis + 2) mod 3;
          d = [0, 0, 0][axis := s]
      in fold (\<lambda>dv msk.
                 fold (\<lambda>du msk. maskCell c axis (d[v := dv, u := du]) msk)
                      [0..<dims ! axis ! u] msk)
              [0..<dims ! axis ! v]
              (replicate (dims ! axis ! u * dims ! axis ! v) None))"

text \<open>\<open>for (w = 1; i + w < U && mask[i + w + j * U] === currentType; w++) {}\<close>\<close>

function findWidth :: "mask \<Rightarrow> nat \<Rightarrow> nat \<Rightarrow> nat \<Rightarrow> BlockType \<Rightarrow> nat \<Rightarrow> nat" where
  "findWidth msk U i j currentType w =
     (if i + w < U \<and> msk ! (i + w + j * U) = Some currentType
      then findWidth msk U i j currentType (w + 1)
      else w)"
  by pat_completeness auto
termination
  by (relation "measure (\<lambda>(msk, U, i, j, currentType, w). U - (i + w))") auto

declare findWidth.simps [simp del]

text \<open>The inner \<open>k\<close> loop of the height search sets \<open>done\<close> at the first cell of row
  \<open>j + h\<close> that differs from \<open>currentType\<close>; \<open>rowMatches\<close> is \<open>\<not> done\<close>.\<close>

definition rowMatches :: "mask \<Rightarrow> nat \<Rightarrow> nat \<Rightarrow> nat \<Rightarrow> BlockType \<Rightarrow> nat \<Rightarrow> nat \<Rightarrow> bool" where
  "rowMatches msk U i j currentType w h =
     list_all (\<lambda>k. msk ! (i + k + (j + h) * U) = Some currentType) [0..<w]"

function findHeight ::
  "mask \<Rightarrow> nat \<Rightarrow> nat \<Rightarrow> nat \<Rightarrow> nat \<Rightarrow> BlockType \<Rightarrow> nat \<Rightarrow> nat \<Rightarrow> nat" where
  "findHeight msk U V i j currentType w h =
     (if j + h < V
      then (if rowMatches msk U i j currentType w h
            then findHeight msk U V i j currentType w (h + 1)
            else h)
      else h)"
  by pat_completeness auto
termination
  by (relation "measure (\<lambda>(msk, U, V, i, j, currentType, w, h). V - (j + h))") auto

declare findHeight.simps [simp del]

definition clearMask :: "mask \<Rightarrow> nat \<Rightarrow> nat \<Rightarrow> nat \<Rightarrow> nat \<Rightarrow> nat \<Rightarrow> mask" where
  "clearMask msk U i j w h =
     fold (\<lambda>l msk. fold (\<lambda>k msk. msk[i + k + (j + l) * U := None]) [0..<w] msk)
          [0..<h] msk"

text \<open>The quad pushed for the rectangle at \<open>(i, j)\<close> of width \<open>w\<close> and height \<open>h\<close> in
  slice \<open>s\<close>: \<open>d[u] = i; d[v] = j; du[u] = w; dv[v] = h\<close>, normal \<open>q\<close>.\<close>

definition mergedQuad :: "nat \<Rightarrow> nat \<Rightarrow> nat \<Rightarrow> nat \<Rightarrow> nat \<Rightarrow> nat \<Rightarrow> BlockType \<Rightarrow> quad" where
  "mergedQuad axis s i j w h currentType =
     (let u = (axis + 1) mod 3; v = (axis + 2) mod 3;
          q = [0, 0, 0][axis := 1];
          d = [0, 0, 0][axis := int s, u := int i, v := int j];
          du = [0, 0, 0][u := int w];
          dv = [0, 0, 0][v := int h]
      in \<lparr>corners =
            [ (d ! 0, d ! 1, d ! 2),
              (d ! 0 + du ! 0, d ! 1 + du ! 1, d ! 2 + du ! 2),
              (d ! 0 + du ! 0 + dv ! 0, d ! 1 + du ! 1 + dv ! 1, d ! 2 + du ! 2 + dv ! 2),
              (d ! 0 + dv ! 0, d ! 1 + dv ! 1, d ! 2 + dv ! 2) ],
          qnormal = (q ! 0, q ! 1, q ! 2),
          qtype = currentType\<rparr>)"

text \<open>The loop \<open>for (let i = 0; i < U;)\<close> of row \<open>j\<close>, from column \<open>i\<close>: the quads pushed
  and the mask left behind.\<close>

function scanRow ::
  "nat \<Rightarrow> nat \<Rightarrow> nat \<Rightarrow> nat \<Rightarrow> nat \<Rightarrow> nat \<Rightarrow> mask \<Rightarrow> quad list \<times> mask" where
  "scanRow axis s U V j i msk =
     (if i < U then
        (case msk ! (i + j * U) of
           None \<Rightarrow> scanRow axis s U V j (i + 1) msk
         | Some currentType \<Rightarrow>
             (let w = findWidth msk U i j currentType 1;
                  h = findHeight msk U V i j currentType w 1;
                  quad = mergedQuad axis s i j w h currentType;
                  msk' = clearMask msk U i j w h
              in case scanRow axis s U V j (i + w) msk' of
                   (quads, msk'') \<Rightarrow> (quad # quads, msk'')))
      else ([], msk))"
  by pat_completeness auto
termination
proof (relation "measure (\<lambda>(axis, s, U, V, j, i, msk). U - i)", goal_cases)
  case 1
  show ?case by simp
next
  case (2 axis s U V j i msk)
  then show ?case by simp
next
  case (3 axis s U V j i msk currentType w h quad msk')
  have "w0 \<le> findWidth msk U i j currentType w0" for w0
  proof (induction msk U i j currentType w0 rule: findWidth.induct)
    case (1 msk U i j t w)
    show ?case
    proof (cases "i + w < U \<and> msk ! (i + w + j * U) = Some t")
      case True
      with "1.IH" have "w + 1 \<le> findWidth msk U i j t (w + 1)" by simp
      with True show ?thesis by (subst findWidth.simps) simp
    next
      case False
      then show ?thesis by (subst findWidth.simps) auto
    qed
  qed
  then have "1 \<le> findWidth msk U i j currentType 1" .
  with 3 show ?case by simp
qed

declare scanRow.simps [simp del]

definition scanSlice :: "nat \<Rightarrow> nat \<Rightarrow> nat \<Rightarrow> nat \<Rightarrow> mask \<Rightarrow> quad list" where
  "scanSlice axis s U V msk =
     fst (fold (\<lambda>j (quads, msk).
                  case scanRow axis s U V j 0 msk of
                    (quads', msk') \<Rightarrow> (quads @ quads', msk'))
               [0..<V] ([], msk))"

definition sliceQuads :: "chunkData \<Rightarrow> nat \<Rightarrow> nat \<Rightarrow> quad list" where
  "sliceQuads c axis s =
     (let u = (axis + 1) mod 3; v = (axis + 2) mod 3
      in scanSlice axis s (dims ! axis ! u) (dims ! axis ! v) (buildMask c axis s))"

definition axisQuads :: "chunkData \<Rightarrow> nat \<Rightarrow> quad list" where
  "axisQuads c axis = concat (map (sliceQuads c axis) [0..<dims ! axis ! axis])"

definition greedyQuads :: "chunkData \<Rightarrow> quad list" where
  "greedyQuads c = concat (map (axisQuads c) [0..<3])"

definition createGreedyChunkMesh :: "chunkData \<Rightarrow> mesh option" where
  "createGreedyChunkMesh c = finishMesh (fold pushQuad (greedyQuads c) emptyBuffers)"

section \<open>Server: the chunk grid\<close>

text \<open>
  On the server the grid is built and written cell by cell. A JavaScript array is an
  object keyed by index, so \<open>chunk\<close> is a map from \<open>x\<close> to planes, a plane a map from \<open>y\<close>
  to rows, a row a map from \<open>z\<close> to block types. Reading \<open>chunk[x][y]\<close> where \<open>chunk[x]\<close>
  is undefined, or assigning \<open>chunk[x][y][z] = v\<close> where \<open>chunk[x][y]\<close> is undefined,
  throws a \<open>TypeError\<close>; assigning to an existing row sets key \<open>z\<close> whatever \<open>z\<close> is
  (the row grows beyond the grid). A missing key reads as \<open>undefined\<close> (\<open>None\<close>).
\<close>

datatype error = TypeError

type_synonym 'a jsarray = "int \<rightharpoonup> 'a"

type_synonym chunk = "BlockType jsarray jsarray jsarray"

definition writeCell :: "chunk \<Rightarrow> int \<Rightarrow> int \<Rightarrow> int \<Rightarrow> BlockType \<Rightarrow> error + chunk" where
  "writeCell chunk x y z v =
     (case chunk x of
        None \<Rightarrow> Inl TypeError
      | Some plane \<Rightarrow>
          (case plane y of
             None \<Rightarrow> Inl TypeError
           | Some row \<Rightarrow> Inr (chunk(x \<mapsto> plane(y \<mapsto> row(z \<mapsto> v))))))"

definition readCell :: "chunk \<Rightarrow> int \<Rightarrow> int \<Rightarrow> int \<Rightarrow> error + BlockType option" where
  "readCell chunk x y z =
     (case chunk x of
        None \<Rightarrow> Inl TypeError
      | Some plane \<Rightarrow>
          (case plane y of
             None \<Rightarrow> Inl TypeError
           | Some row \<Rightarrow> Inr (row z)))"

text \<open>A sequence of statements that may throw: the first error ends the loop.\<close>

fun foldE :: "('a \<Rightarrow> 's \<Rightarrow> error + 's) \<Rightarrow> 'a list \<Rightarrow> 's \<Rightarrow> error + 's" where
  "foldE f [] s = Inr s"
| "foldE f (a # as) s = (case f a s of Inl e \<Rightarrow> Inl e | Inr s' \<Rightarrow> foldE f as s')"

text \<open>The initialisation loops of \<open>generateChunk\<close>: every cell of the grid is Air.\<close>

definition initRow :: "BlockType jsarray" where
  "initRow = fold (\<lambda>z row. row(int z \<mapsto> AIR)) [0..<CHUNK_SIZE] Map.empty"

definition initPlane :: "BlockType jsarray jsarray" where
  "initPlane = fold (\<lambda>y plane. plane(int y \<mapsto> initRow)) [0..<CHUNK_HEIGHT] Map.empty"

definition initChunk :: chunk where
  "initChunk = fold (\<lambda>x chunk. chunk(int x \<mapsto> initPlane)) [0..<CHUNK_SIZE] Map.empty"

text \<open>\<open>isSolid(chunk, x, y, z)\<close>; an undefined cell is \<open>!== BlockType.AIR\<close>.\<close>

definition isSolid :: "chunk \<Rightarrow> int \<Rightarrow> int \<Rightarrow> int \<Rightarrow> error + bool" where
  "isSolid chunk x y z =
     (if x < 0 \<or> x \<ge> int CHUNK_SIZE \<or> z < 0 \<or> z \<ge> int CHUNK_SIZE \<or>
         y < 0 \<or> y \<ge> int CHUNK_HEIGHT
      then Inr False
      else (case readCell chunk x y z of
              Inl e \<Rightarrow> Inl e
            | Inr blockType \<Rightarrow> Inr (blockType \<noteq> Some AIR)))"

section \<open>Server: the height map\<close>

text \<open>
  \<open>noise2D\<close> is the function \<open>createNoise2D()\<close> of the simplex-noise package returned
  when the module was loaded; it is a parameter here. JavaScript numbers are modelled
  as reals, \<open>Math.pow\<close> as \<open>powr\<close>, \<open>Math.floor\<close> as \<open>floor\<close>.
\<close>

definition MIN_HEIGHT :: int where
  "MIN_HEIGHT = 5"

definition MAX_HEIGHT :: int where
  "MAX_HEIGHT = 50"

definition TERRAIN_SCALE :: real where
  "TERRAIN_SCALE = 0.02"

definition OCTAVES :: nat where
  "OCTAVES = 6"

definition MOUNTAIN_SCALE :: real where
  "MOUNTAIN_SCALE = 0.01"

definition TREE_PROBABILITY :: real where
  "TREE_PROBABILITY = 0.05"

record octaves =
  noiseValue :: real
  amplitude :: real
  frequency :: real
  maxValue :: real

definition octaveStep :: "(real \<Rightarrow> real \<Rightarrow> real) \<Rightarrow> real \<Rightarrow> real \<Rightarrow> octaves \<Rightarrow> octaves" where
  "octaveStep noise2D worldX worldZ s =
     \<lparr>noiseValue = noiseValue s + noise2D (worldX * frequency s) (worldZ * frequency s) * amplitude s,
      amplitude = amplitude s * 0.5,
      frequency = frequency s * 2,
      maxValue = maxValue s + amplitude s\<rparr>"

text \<open>The body of the two loops of \<open>generateHeightMap\<close> at local column \<open>(x, z)\<close>.\<close>

definition columnHeight :: "(real \<Rightarrow> real \<Rightarrow> real) \<Rightarrow> int \<Rightarrow> int \<Rightarrow> nat \<Rightarrow> nat \<Rightarrow> int" where
  "columnHeight noise2D chunkX chunkZ x z =
     (let worldX = real_of_int (chunkX * int CHUNK_SIZE + int x);
          worldZ = real_of_int (chunkZ * int CHUNK_SIZE + int z);
          s = (octaveStep noise2D worldX worldZ ^^ OCTAVES)
                \<lparr>noiseValue = 0, amplitude = 1, frequency = TERRAIN_SCALE, maxValue = 0\<rparr>;
          noiseValue = (noiseValue s / maxValue s + 1) / 2;
          mountainNoise = (noise2D (worldX * MOUNTAIN_SCALE) (worldZ * MOUNTAIN_SCALE) + 1) / 2;
          mountainInfluence = mountainNoise powr 2.5;
          finalNoise = noiseValue * 0.4 + mountainInfluence * 0.6;
          clampedNoise = max 0 (min 1 finalNoise)
      in \<lfloor>real_of_int MIN_HEIGHT + clampedNoise * real_of_int (MAX_HEIGHT - MIN_HEIGHT)\<rfloor>)"

definition generateHeightMap :: "(real \<Rightarrow> real \<Rightarrow> real) \<Rightarrow> int \<Rightarrow> int \<Rightarrow> int list list" where
  "generateHeightMap noise2D chunkX chunkZ =
     map (\<lambda>x. map (\<lambda>z. columnHeight noise2D chunkX chunkZ x z) [0..<CHUNK_SIZE]) [0..<CHUNK_SIZE]"

definition getTerrainHeight :: "real \<Rightarrow> real \<Rightarrow> int" where
  "getTerrainHeight worldX worldZ =
     (let noiseValue = \<bar>sin (worldX * TERRAIN_SCALE) * cos (worldZ * TERRAIN_SCALE)\<bar>
      in \<lfloor>real_of_int MIN_HEIGHT + noiseValue * real_of_int (MAX_HEIGHT - MIN_HEIGHT)\<rfloor>)"

section \<open>Server: trees and the chunk builder\<close>

text \<open>
  \<open>Math.random\<close> is the sequence of the numbers it will return, each in \<open>[0, 1)\<close>; a call
  takes the first and leaves the rest.
\<close>

type_synonym random = "nat \<Rightarrow> real"

definition Math_random :: "random \<Rightarrow> real \<times> random" where
  "Math_random rnd = (rnd 0, \<lambda>n. rnd (Suc n))"

text \<open>
  The assignments \<open>chunk[a][b][c] = v\<close> that \<open>generateTree\<close> reaches, in program order,
  for a trunk of height \<open>TRUNK_HEIGHT\<close>. The guards depend on the coordinates only.
\<close>

definition trunkWrites :: "int \<Rightarrow> int \<Rightarrow> int \<Rightarrow> int \<Rightarrow> (int \<times> int \<times> int \<times> BlockType) list" where
  "trunkWrites x y z TRUNK_HEIGHT =
     concat (map (\<lambda>dy. let blockY = y + dy in
                        if blockY < int CHUNK_HEIGHT then [(x, blockY, z, WOOD)] else [])
                 [0..TRUNK_HEIGHT - 1])"

definition leafWrites :: "int \<Rightarrow> int \<Rightarrow> int \<Rightarrow> (int \<times> int \<times> int \<times> BlockType) list" where
  "leafWrites x leavesY z =
     concat (map (\<lambda>dx. concat (map (\<lambda>dz. concat (map (\<lambda>dy.
        let leafX = x + dx; leafZ = z + dz; leafY = leavesY + dy in
        if leafX \<ge> 0 \<and> leafX < int CHUNK_SIZE \<and> leafZ \<ge> 0 \<and> leafZ < int CHUNK_SIZE \<and>
           leafY < int CHUNK_HEIGHT
        then (if \<not> (dx = 0 \<and> dz = 0 \<and> dy = 0) then [(leafX, leafY, leafZ, LEAVES)] else [])
        else [])
        [0..2])) [-1..1])) [-1..1])"

definition topLeafWrites :: "int \<Rightarrow> int \<Rightarrow> int \<Rightarrow> (int \<times> int \<times> int \<times> BlockType) list" where
  "topLeafWrites x leavesY z =
     (if leavesY + 3 < int CHUNK_HEIGHT then [(x, leavesY + 3, z, LEAVES)] else [])"

definition treeWrites :: "int \<Rightarrow> int \<Rightarrow> int \<Rightarrow> int \<Rightarrow> (int \<times> int \<times> int \<times> BlockType) list" where
  "treeWrites x y z TRUNK_HEIGHT =
     (let leavesY = y + TRUNK_HEIGHT
      in trunkWrites x y z TRUNK_HEIGHT @ leafWrites x leavesY z @ topLeafWrites x leavesY z)"

definition applyWrite :: "int \<times> int \<times> int \<times> BlockType \<Rightarrow> chunk \<Rightarrow> error + chunk" where
  "applyWrite w chunk = (case w of (a, b, c, v) \<Rightarrow> writeCell chunk a b c v)"

definition generateTree :: "chunk \<Rightarrow> int \<Rightarrow> int \<Rightarrow> int \<Rightarrow> random \<Rightarrow> error + chunk \<times> random" where
  "generateTree chunk x y z rnd =
     (case Math_random rnd of (r, rnd') \<Rightarrow>
        (let TREE_HEIGHT = 5 + \<lfloor>r * 3\<rfloor>;
             TRUNK_HEIGHT = TREE_HEIGHT - 2
         in (case foldE applyWrite (treeWrites x y z TRUNK_HEIGHT) chunk of
               Inl e \<Rightarrow> Inl e
             | Inr chunk' \<Rightarrow> Inr (chunk', rnd'))))"


record builder =
  grid :: chunk
  treePositions :: "(int \<times> int \<times> int) list"
  rand :: random

text \<open>The body of the loop \<open>for (let y = 0; y < terrainHeight; y++)\<close>.\<close>

definition fillCell :: "int \<Rightarrow> int \<Rightarrow> int \<Rightarrow> int \<Rightarrow> builder \<Rightarrow> error + builder" where
  "fillCell x z terrainHeight y b =
     (if y = terrainHeight - 1 then
        (case writeCell (grid b) x y z GRASS of
           Inl e \<Rightarrow> Inl e
         | Inr chunk' \<Rightarrow>
             if terrainHeight > 10 \<and> terrainHeight < 35 then
               (case Math_random (rand b) of (r, rnd') \<Rightarrow>
                  if r < TREE_PROBABILITY
                  then Inr (b\<lparr>grid := chunk',
                              treePositions := treePositions b @ [(x, terrainHeight, z)],
                              rand := rnd'\<rparr>)
                  else Inr (b\<lparr>grid := chunk', rand := rnd'\<rparr>))
             else Inr (b\<lparr>grid := chunk'\<rparr>))
      else if y \<ge> terrainHeight - 4 then
        (case writeCell (grid b) x y z DIRT of
           Inl e \<Rightarrow> Inl e
         | Inr chunk' \<Rightarrow> Inr (b\<lparr>grid := chunk'\<rparr>))
      else
        (case writeCell (grid b) x y z STONE of
           Inl e \<Rightarrow> Inl e
         | Inr chunk' \<Rightarrow> Inr (b\<lparr>grid := chunk'\<rparr>)))"

definition WATER_LEVEL :: int where
  "WATER_LEVEL = 12"

definition fillWater :: "int \<Rightarrow> int \<Rightarrow> int \<Rightarrow> builder \<Rightarrow> error + builder" where
  "fillWater x z terrainHeight b =
     (if terrainHeight < WATER_LEVEL then
        foldE (\<lambda>y b. case writeCell (grid b) x y z WATER of
                        Inl e \<Rightarrow> Inl e
                      | Inr chunk' \<Rightarrow> Inr (b\<lparr>grid := chunk'\<rparr>))
              [terrainHeight..WATER_LEVEL - 1] b
      else Inr b)"

text \<open>The body of the loops over \<open>x\<close> and \<open>z\<close>: one column.\<close>

definition fillColumn :: "int list list \<Rightarrow> nat \<Rightarrow> nat \<Rightarrow> builder \<Rightarrow> error + builder" where
  "fillColumn heightMap x z b =
     (let terrainHeight = heightMap ! x ! z
      in case foldE (fillCell (int x) (int z) terrainHeight) [0..terrainHeight - 1] b of
           Inl e \<Rightarrow> Inl e
         | Inr b' \<Rightarrow> fillWater (int x) (int z) terrainHeight b')"

definition fillTerrain :: "int list list \<Rightarrow> builder \<Rightarrow> error + builder" where
  "fillTerrain heightMap b =
     foldE (\<lambda>x b. foldE (\<lambda>z b. fillColumn heightMap x z b) [0..<CHUNK_SIZE] b)
           [0..<CHUNK_SIZE] b"

definition placeTrees :: "builder \<Rightarrow> error + builder" where
  "placeTrees b =
     foldE (\<lambda>treePos b. case treePos of (tx, ty, tz) \<Rightarrow>
              (case generateTree (grid b) tx ty tz (rand b) of
                 Inl e \<Rightarrow> Inl e
               | Inr (chunk', rnd') \<Rightarrow> Inr (b\<lparr>grid := chunk', rand := rnd'\<rparr>)))
           (treePositions b) b"

text \<open>\<open>generateChunk\<close>: the grid it returns, and the rest of the random sequence.
  \<open>terrainPhase\<close> is its state when the column loops are done, before the tree loop.\<close>

definition terrainPhase ::
  "(real \<Rightarrow> real \<Rightarrow> real) \<Rightarrow> random \<Rightarrow> int \<Rightarrow> int \<Rightarrow> error + builder" where
  "terrainPhase noise2D rnd chunkX chunkZ =
     (let heightMap = generateHeightMap noise2D chunkX chunkZ
      in fillTerrain heightMap \<lparr>grid = initChunk, treePositions = [], rand = rnd\<rparr>)"

definition generateChunk ::
  "(real \<Rightarrow> real \<Rightarrow> real) \<Rightarrow> random \<Rightarrow> int \<Rightarrow> int \<Rightarrow> error + chunk \<times> random" where
  "generateChunk noise2D rnd chunkX chunkZ =
     (case terrainPhase noise2D rnd chunkX chunkZ of
        Inl e \<Rightarrow> Inl e
      | Inr b \<Rightarrow>
          (case placeTrees b of
             Inl e \<Rightarrow> Inl e
           | Inr b' \<Rightarrow> Inr (grid b', rand b')))"

section \<open>Predicates and example grids of the statements\<close>

text \<open>The range \<open>[0,16) \<times> [0,64) \<times> [0,16)\<close> of local coordinates.\<close>

definition inGrid :: "int \<Rightarrow> int \<Rightarrow> int \<Rightarrow> bool" where
  "inGrid x y z \<longleftrightarrow>
     0 \<le> x \<and> x < int CHUNK_SIZE \<and> 0 \<le> y \<and> y < int CHUNK_HEIGHT \<and> 0 \<le> z \<and> z < int CHUNK_SIZE"

text \<open>A grid whose cells are all Air; a grid without Air.\<close>

definition allAir :: "chunkData \<Rightarrow> bool" where
  "allAir c \<longleftrightarrow> (\<forall>x<CHUNK_SIZE. \<forall>y<CHUNK_HEIGHT. \<forall>z<CHUNK_SIZE. c ! x ! y ! z = AIR)"

definition allSolid :: "chunkData \<Rightarrow> bool" where
  "allSolid c \<longleftrightarrow> (\<forall>x<CHUNK_SIZE. \<forall>y<CHUNK_HEIGHT. \<forall>z<CHUNK_SIZE. c ! x ! y ! z \<noteq> AIR)"

text \<open>\<open>isBox c x0 x1 y0 y1 z0 z1 t\<close>: the cells with \<open>x0 \<le> x < x1\<close>, \<open>y0 \<le> y < y1\<close>,
  \<open>z0 \<le> z < z1\<close> hold the block type \<open>t\<close>, which is not Air, and every other cell of the
  grid holds Air. A single cell and a one-block-thick slab are such boxes.\<close>

definition isBox ::
  "chunkData \<Rightarrow> nat \<Rightarrow> nat \<Rightarrow> nat \<Rightarrow> nat \<Rightarrow> nat \<Rightarrow> nat \<Rightarrow> BlockType \<Rightarrow> bool" where
  "isBox c x0 x1 y0 y1 z0 z1 t \<longleftrightarrow>
     x0 < x1 \<and> x1 \<le> CHUNK_SIZE \<and> y0 < y1 \<and> y1 \<le> CHUNK_HEIGHT \<and> z0 < z1 \<and> z1 \<le> CHUNK_SIZE \<and>
     t \<noteq> AIR \<and>
     (\<forall>x<CHUNK_SIZE. \<forall>y<CHUNK_HEIGHT. \<forall>z<CHUNK_SIZE.
        c ! x ! y ! z =
          (if x0 \<le> x \<and> x < x1 \<and> y0 \<le> y \<and> y < y1 \<and> z0 \<le> z \<and> z < z1 then t else AIR))"

text \<open>Grids used as examples: a grid of the chunk shape filled with one block type, the
  grid that holds one box of a block type in Air, and the server grid after the
  initialisation loops with Water stored in the cell \<open>(0, 5, 0)\<close>.\<close>

definition uniformChunk :: "BlockType \<Rightarrow> chunkData" where
  "uniformChunk t = replicate CHUNK_SIZE (replicate CHUNK_HEIGHT (replicate CHUNK_SIZE t))"

definition boxChunk ::
  "nat \<Rightarrow> nat \<Rightarrow> nat \<Rightarrow> nat \<Rightarrow> nat \<Rightarrow> nat \<Rightarrow> BlockType \<Rightarrow> chunkData" where
  "boxChunk x0 x1 y0 y1 z0 z1 t =
     map (\<lambda>x. map (\<lambda>y. map (\<lambda>z.
            if x0 \<le> x \<and> x < x1 \<and> y0 \<le> y \<and> y < y1 \<and> z0 \<le> z \<and> z < z1 then t else AIR)
          [0..<CHUNK_SIZE]) [0..<CHUNK_HEIGHT]) [0..<CHUNK_SIZE]"

definition waterCellChunk :: chunk where
  "waterCellChunk = initChunk(0 \<mapsto> initPlane(5 \<mapsto> initRow(0 \<mapsto> WATER)))"

text \<open>\<open>maskIs msk U V f\<close>: the mask has \<open>U * V\<close> entries and entry \<open>i + j * U\<close> is
  \<open>f i j\<close>. \<open>condUpdate\<close> is the assignment of the mask-building loop, \<open>maskSpec\<close> the
  entry the loops leave at \<open>(i, j)\<close>, \<open>rectMask\<close> a mask that holds one rectangle of a
  block type, and \<open>isMerged axis q\<close> says that \<open>q\<close> is a quad of the sweep along \<open>axis\<close>.\<close>

definition maskIs :: "mask \<Rightarrow> nat \<Rightarrow> nat \<Rightarrow> (nat \<Rightarrow> nat \<Rightarrow> BlockType option) \<Rightarrow> bool" where
  "maskIs msk U V f \<longleftrightarrow> length msk = U * V \<and> (\<forall>i<U. \<forall>j<V. msk ! (i + j * U) = f i j)"

definition condUpdate :: "(nat \<Rightarrow> nat \<Rightarrow> BlockType option) \<Rightarrow> nat \<Rightarrow> nat \<Rightarrow> nat \<Rightarrow> mask \<Rightarrow> mask" where
  "condUpdate f U dv du m = (case f du dv of None \<Rightarrow> m | Some t \<Rightarrow> m[du + dv * U := Some t])"

definition maskSpec :: "chunkData \<Rightarrow> nat \<Rightarrow> nat \<Rightarrow> nat \<Rightarrow> nat \<Rightarrow> BlockType option" where
  "maskSpec c axis s i j =
     (let u = (axis + 1) mod 3; v = (axis + 2) mod 3;
          q = [0, 0, 0][axis := 1];
          d = [0, 0, 0][axis := s, v := j, u := i];
          blockType = getBlock c (int (d ! 0)) (int (d ! 1)) (int (d ! 2));
          neighborType = getBlock c (int (d ! 0 + q ! 0)) (int (d ! 1 + q ! 1)) (int (d ! 2 + q ! 2))
      in if blockType \<noteq> AIR \<and> neighborType = AIR then Some blockType else None)"

definition rectMask :: "nat \<Rightarrow> nat \<Rightarrow> nat \<Rightarrow> nat \<Rightarrow> BlockType \<Rightarrow> nat \<Rightarrow> nat \<Rightarrow> BlockType option" where
  "rectMask i0 W j0 H t i j =
     (if i0 \<le> i \<and> i < i0 + W \<and> j0 \<le> j \<and> j < j0 + H then Some t else None)"

definition isMerged :: "nat \<Rightarrow> quad \<Rightarrow> bool" where
  "isMerged axis q \<longleftrightarrow> (\<exists>s i j w h t. q = mergedQuad axis s i j w h t)"











text \<open>\<open>noiseSamples\<close> lists the arguments of the calls of \<open>noise2D\<close> for one column: the six
  octaves, whose frequency doubles from \<open>TERRAIN_SCALE\<close>, and the mountain channel.\<close>

definition noiseSamples :: "int \<Rightarrow> int \<Rightarrow> nat \<Rightarrow> nat \<Rightarrow> (real \<times> real) list" where
  "noiseSamples chunkX chunkZ x z =
     (let worldX = real_of_int (chunkX * int CHUNK_SIZE + int x);
          worldZ = real_of_int (chunkZ * int CHUNK_SIZE + int z)
      in map (\<lambda>i. (worldX * (TERRAIN_SCALE * 2 ^ i), worldZ * (TERRAIN_SCALE * 2 ^ i))) [0..<OCTAVES]
         @ [(worldX * MOUNTAIN_SCALE, worldZ * MOUNTAIN_SCALE)])"

text \<open>Two random sources agree on their first \<open>k\<close> numbers. \<open>sameUpTo j b1 b2\<close> relates
  the states of two runs after \<open>j\<close> columns: same grid, same tree sites, at most \<open>j\<close> of
  them, and random sources that agree on their next \<open>512 - j\<close> numbers.\<close>

definition agree :: "nat \<Rightarrow> random \<Rightarrow> random \<Rightarrow> bool" where
  "agree k r1 r2 \<longleftrightarrow> (\<forall>n<k. r1 n = r2 n)"

definition sameUpTo :: "nat \<Rightarrow> builder \<Rightarrow> builder \<Rightarrow> bool" where
  "sameUpTo j b1 b2 \<longleftrightarrow>
     grid b1 = grid b2 \<and> treePositions b1 = treePositions b2 \<and>
     agree (512 - j) (rand b1) (rand b2) \<and> length (treePositions b1) \<le> j"

section \<open>The example grids are grids\<close>

lemma wf_uniformChunk: "wf_chunkData (uniformChunk t)"
  by (simp add: wf_chunkData_def uniformChunk_def list_all_iff)

lemma wf_boxChunk: "wf_chunkData (boxChunk x0 x1 y0 y1 z0 z1 t)"
  by (simp add: wf_chunkData_def boxChunk_def list_all_iff)

section \<open>The face exposure check\<close>

text \<open>
  C7. \<open>shouldRenderFace\<close> is true exactly when \<open>getBlock\<close> finds Air at the neighbour
  \<open>(x + dx, y + dy, z + dz)\<close>; \<open>getBlock\<close> returns Air for every coordinate outside
  \<open>[0,16) \<times> [0,64) \<times> [0,16)\<close> and the stored cell inside; so a face against a
  neighbour inside the grid that holds Water is not exposed.
\<close>

theorem shouldRenderFace_iff_neighbor_air:
  "(shouldRenderFace c x y z (dx, dy, dz) \<longleftrightarrow> getBlock c (x + dx) (y + dy) (z + dz) = AIR) \<and>
   getBlock c a b d =
     (if 0 \<le> a \<and> a < 16 \<and> 0 \<le> b \<and> b < 64 \<and> 0 \<le> d \<and> d < 16
      then c ! nat a ! nat b ! nat d else AIR) \<and>
   (getBlock c (x + dx) (y + dy) (z + dz) = WATER \<longrightarrow> \<not> shouldRenderFace c x y z (dx, dy, dz))"
  by (auto simp: shouldRenderFace_def getBlock_def CHUNK_SIZE_def CHUNK_HEIGHT_def)

theorem shouldRenderFace_iff_neighbor_air_witness:
  "getBlock (uniformChunk WATER) (0 + 1) (0 + 0) (0 + 0) = WATER \<and>
   \<not> shouldRenderFace (uniformChunk WATER) 0 0 0 (1, 0, 0) \<and>
   shouldRenderFace (uniformChunk WATER) 0 0 0 (-1, 0, 0)"
proof -
  have w: "getBlock (uniformChunk WATER) (0 + 1) (0 + 0) (0 + 0) = WATER"
    by (simp add: getBlock_def uniformChunk_def CHUNK_SIZE_def CHUNK_HEIGHT_def)
  have a: "getBlock (uniformChunk WATER) (0 + (-1)) (0 + 0) (0 + 0) = AIR"
    by (simp add: getBlock_def)
  from w a
    shouldRenderFace_iff_neighbor_air [of "uniformChunk WATER" 0 0 0 1 0 0 0 0 0]
    shouldRenderFace_iff_neighbor_air [of "uniformChunk WATER" 0 0 0 "-1" 0 0 0 0 0]
  show ?thesis by blast
qed

section \<open>The mesh entry point\<close>

text \<open>
  C10. \<open>createChunkMesh\<close> returns, for every chunk grid, what \<open>createSimpleChunkMesh\<close>
  returns for it; its body is that single call, and the greedy mesher is not on the path.
\<close>

theorem createChunkMesh_is_simple:
  "createChunkMesh chunkData = createSimpleChunkMesh chunkData"
  by (simp add: createChunkMesh_def)

section \<open>Solidity\<close>

lemma fold_upd_range:
  "fold (\<lambda>k m. m(int k \<mapsto> v)) [0..<n] m0 = (\<lambda>i. if 0 \<le> i \<and> i < int n then Some v else m0 i)"
  by (induction n) (auto simp: fun_eq_iff)

lemma initRow_eq: "initRow = (\<lambda>z. if 0 \<le> z \<and> z < 16 then Some AIR else None)"
  unfolding initRow_def fold_upd_range by (simp add: CHUNK_SIZE_def)

lemma initPlane_eq: "initPlane = (\<lambda>y. if 0 \<le> y \<and> y < 64 then Some initRow else None)"
  unfolding initPlane_def fold_upd_range by (simp add: CHUNK_HEIGHT_def)

lemma initChunk_eq: "initChunk = (\<lambda>x. if 0 \<le> x \<and> x < 16 then Some initPlane else None)"
  unfolding initChunk_def fold_upd_range by (simp add: CHUNK_SIZE_def)

text \<open>
  C5, as the code has it. For a cell inside the grid that holds the block type \<open>t\<close>,
  \<open>isSolid\<close> returns \<open>t \<noteq> AIR\<close>: false for Air only, true for Water as for Grass, Dirt,
  Stone, Wood and Leaves. \<open>Block.isSolid\<close> of the client is the same test.
\<close>

theorem isSolid_is_not_air:
  assumes "0 \<le> x" "x < int CHUNK_SIZE" "0 \<le> y" "y < int CHUNK_HEIGHT"
    and "0 \<le> z" "z < int CHUNK_SIZE"
    and "readCell chunk x y z = Inr (Some t)"
  shows "isSolid chunk x y z = Inr (t \<noteq> AIR) \<and> Block_isSolid t = (t \<noteq> AIR)"
  using assms by (simp add: isSolid_def Block_isSolid_def)

theorem isSolid_is_not_air_witness:
  "readCell initChunk 1 2 3 = Inr (Some AIR) \<and> isSolid initChunk 1 2 3 = Inr False \<and>
   \<not> Block_isSolid AIR"
proof -
  have r: "readCell initChunk 1 2 3 = Inr (Some AIR)"
    by (simp add: readCell_def initChunk_eq initPlane_eq initRow_eq)
  from isSolid_is_not_air [of 1 2 3 initChunk AIR, OF _ _ _ _ _ _ r] r
  show ?thesis by (simp add: CHUNK_SIZE_def CHUNK_HEIGHT_def)
qed

text \<open>The claim as stated fails: the cell \<open>(0, 5, 0)\<close> of \<open>waterCellChunk\<close> holds Water and
  \<open>isSolid\<close> returns true for it.\<close>

theorem isSolid_water_counterexample:
  "readCell waterCellChunk 0 5 0 = Inr (Some WATER) \<and>
   isSolid waterCellChunk 0 5 0 = Inr True \<and> Block_isSolid WATER"
  by (simp add: isSolid_def readCell_def waterCellChunk_def Block_isSolid_def
        CHUNK_SIZE_def CHUNK_HEIGHT_def)

section \<open>Height bounds\<close>

lemma columnHeight_range:
  "MIN_HEIGHT \<le> columnHeight n cx cz x z \<and> columnHeight n cx cz x z \<le> MAX_HEIGHT"
proof -
  define wx where "wx = real_of_int (cx * int CHUNK_SIZE + int x)"
  define wz where "wz = real_of_int (cz * int CHUNK_SIZE + int z)"
  define s where "s = (octaveStep n wx wz ^^ OCTAVES)
       \<lparr>noiseValue = 0, amplitude = 1, frequency = TERRAIN_SCALE, maxValue = 0\<rparr>"
  define c where "c = max 0 (min 1 ((noiseValue s / maxValue s + 1) / 2 * 0.4 +
       ((n (wx * MOUNTAIN_SCALE) (wz * MOUNTAIN_SCALE) + 1) / 2) powr 2.5 * 0.6))"
  have c: "0 \<le> c" "c \<le> 1" by (simp_all add: c_def)
  have h: "columnHeight n cx cz x z = \<lfloor>5 + c * 45\<rfloor>"
    by (simp add: columnHeight_def Let_def c_def s_def wx_def wz_def MIN_HEIGHT_def MAX_HEIGHT_def)
  have "5 \<le> 5 + c * 45" "5 + c * 45 \<le> 50" using c by simp_all
  then show ?thesis
    unfolding h MIN_HEIGHT_def MAX_HEIGHT_def by (simp add: le_floor_iff floor_le_iff)
qed

lemma generateHeightMap_nth:
  "x < CHUNK_SIZE \<Longrightarrow> z < CHUNK_SIZE \<Longrightarrow>
   generateHeightMap n cx cz ! x ! z = columnHeight n cx cz x z"
  by (simp add: generateHeightMap_def)

lemma getTerrainHeight_range:
  "MIN_HEIGHT \<le> getTerrainHeight wx wz \<and> getTerrainHeight wx wz \<le> MAX_HEIGHT"
proof -
  define v where "v = \<bar>sin (wx * TERRAIN_SCALE) * cos (wz * TERRAIN_SCALE)\<bar>"
  have "\<bar>sin (wx * TERRAIN_SCALE)\<bar> * \<bar>cos (wz * TERRAIN_SCALE)\<bar> \<le> 1 * 1"
    by (intro mult_mono) simp_all
  then have v: "0 \<le> v" "v \<le> 1" by (simp_all add: v_def abs_mult)
  have h: "getTerrainHeight wx wz = \<lfloor>5 + v * 45\<rfloor>"
    by (simp add: getTerrainHeight_def v_def MIN_HEIGHT_def MAX_HEIGHT_def)
  have "5 \<le> 5 + v * 45" "5 + v * 45 \<le> 50" using v by simp_all
  then show ?thesis
    unfolding h MIN_HEIGHT_def MAX_HEIGHT_def by (simp add: le_floor_iff floor_le_iff)
qed

text \<open>
  C6. For a noise function within its contract \<open>[-1, 1]\<close> and any chunk coordinates, the
  height map is a \<open>16 \<times> 16\<close> array of integers and each of its entries lies in
  \<open>[MIN_HEIGHT, MAX_HEIGHT] = [5, 50]\<close>; so does every result of \<open>getTerrainHeight\<close>.
  (Within the contract the base of \<open>Math.pow\<close> is not negative, where JavaScript and
  \<open>powr\<close> agree on a number.)
\<close>

theorem heights_within_bounds:
  assumes "\<forall>a b. -1 \<le> noise2D a b \<and> noise2D a b \<le> 1"
    and "x < CHUNK_SIZE" "z < CHUNK_SIZE"
  shows "length (generateHeightMap noise2D chunkX chunkZ) = CHUNK_SIZE \<and>
         length (generateHeightMap noise2D chunkX chunkZ ! x) = CHUNK_SIZE \<and>
         5 \<le> generateHeightMap noise2D chunkX chunkZ ! x ! z \<and>
         generateHeightMap noise2D chunkX chunkZ ! x ! z \<le> 50 \<and>
         5 \<le> getTerrainHeight worldX worldZ \<and> getTerrainHeight worldX worldZ \<le> 50"
  using assms(2,3) columnHeight_range [of noise2D chunkX chunkZ x z]
    getTerrainHeight_range [of worldX worldZ]
  by (simp add: generateHeightMap_nth MIN_HEIGHT_def MAX_HEIGHT_def)
     (simp add: generateHeightMap_def)

theorem heights_within_bounds_witness:
  "(\<forall>a b::real. -1 \<le> (1::real) \<and> (1::real) \<le> 1) \<and> (0::nat) < CHUNK_SIZE \<and>
   generateHeightMap (\<lambda>a b. 1) 0 0 ! 0 ! 0 = 50 \<and>
   5 \<le> generateHeightMap (\<lambda>a b. 1) 0 0 ! 0 ! 0 \<and>
   generateHeightMap (\<lambda>a b. 1) 0 0 ! 0 ! 0 \<le> 50 \<and>
   getTerrainHeight 0 0 = 5"
proof -
  have n: "\<forall>a b::real. -1 \<le> (\<lambda>a b. 1::real) a b \<and> (\<lambda>a b. 1::real) a b \<le> 1" by simp
  have z: "(0::nat) < CHUNK_SIZE" by (simp add: CHUNK_SIZE_def)
  have v: "generateHeightMap (\<lambda>a b. 1) 0 0 ! 0 ! 0 = 50"
    by (simp add: generateHeightMap_nth z columnHeight_def OCTAVES_def eval_nat_numeral
          octaveStep_def MIN_HEIGHT_def MAX_HEIGHT_def TERRAIN_SCALE_def)
  have t: "getTerrainHeight 0 0 = 5"
    by (simp add: getTerrainHeight_def MIN_HEIGHT_def)
  from heights_within_bounds [OF n z z, of 0 0 0 0] v t z
  show ?thesis by simp
qed

section \<open>What the height map reads of the noise\<close>

lemma octaveStep_agree:
  assumes "frequency t = f" "n1 (wx * f) (wz * f) = n2 (wx * f) (wz * f)"
  shows "octaveStep n1 wx wz t = octaveStep n2 wx wz t"
    and "frequency (octaveStep n1 wx wz t) = f * 2"
  using assms by (simp_all add: octaveStep_def)

lemma octaves_agree:
  assumes "\<forall>i<k. n1 (wx * (f0 * 2 ^ i)) (wz * (f0 * 2 ^ i)) = n2 (wx * (f0 * 2 ^ i)) (wz * (f0 * 2 ^ i))"
    and "frequency s = f0"
  shows "(octaveStep n1 wx wz ^^ k) s = (octaveStep n2 wx wz ^^ k) s \<and>
         frequency ((octaveStep n1 wx wz ^^ k) s) = f0 * 2 ^ k"
  using assms(1)
proof (induction k)
  case 0
  then show ?case using assms(2) by simp
next
  case (Suc k)
  have p: "\<forall>i<k. n1 (wx * (f0 * 2 ^ i)) (wz * (f0 * 2 ^ i)) = n2 (wx * (f0 * 2 ^ i)) (wz * (f0 * 2 ^ i))"
    using Suc.prems by simp
  from Suc.IH [OF p] have IH: "(octaveStep n1 wx wz ^^ k) s = (octaveStep n2 wx wz ^^ k) s"
    "frequency ((octaveStep n1 wx wz ^^ k) s) = f0 * 2 ^ k" by blast+
  have a: "n1 (wx * (f0 * 2 ^ k)) (wz * (f0 * 2 ^ k)) = n2 (wx * (f0 * 2 ^ k)) (wz * (f0 * 2 ^ k))"
    using Suc.prems by simp
  let ?t = "(octaveStep n1 wx wz ^^ k) s"
  from octaveStep_agree [where ?n1.0 = n1 and ?n2.0 = n2 and wx = wx and wz = wz, OF IH(2) a]
  have "octaveStep n1 wx wz ?t = octaveStep n2 wx wz ?t"
    "frequency (octaveStep n1 wx wz ?t) = f0 * 2 ^ k * 2" by simp_all
  then show ?case using IH(1) by simp
qed

lemma columnHeight_agree:
  assumes "\<forall>p \<in> set (noiseSamples cx cz x z). n1 (fst p) (snd p) = n2 (fst p) (snd p)"
  shows "columnHeight n1 cx cz x z = columnHeight n2 cx cz x z"
proof -
  let ?wx = "real_of_int (cx * int CHUNK_SIZE + int x)"
  let ?wz = "real_of_int (cz * int CHUNK_SIZE + int z)"
  let ?s = "\<lparr>noiseValue = 0, amplitude = 1, frequency = TERRAIN_SCALE, maxValue = 0\<rparr>"
  have o: "\<forall>i<OCTAVES. n1 (?wx * (TERRAIN_SCALE * 2 ^ i)) (?wz * (TERRAIN_SCALE * 2 ^ i)) =
             n2 (?wx * (TERRAIN_SCALE * 2 ^ i)) (?wz * (TERRAIN_SCALE * 2 ^ i))"
    using assms by (auto simp: noiseSamples_def Let_def)
  have m: "n1 (?wx * MOUNTAIN_SCALE) (?wz * MOUNTAIN_SCALE) = n2 (?wx * MOUNTAIN_SCALE) (?wz * MOUNTAIN_SCALE)"
    using assms by (auto simp: noiseSamples_def Let_def)
  have "(octaveStep n1 ?wx ?wz ^^ OCTAVES) ?s = (octaveStep n2 ?wx ?wz ^^ OCTAVES) ?s"
    using octaves_agree [where k = OCTAVES and ?n1.0 = n1 and ?n2.0 = n2 and wx = ?wx and wz = ?wz
        and ?f0.0 = TERRAIN_SCALE and s = ?s, OF o] by simp
  then show ?thesis using m by (simp add: columnHeight_def Let_def)
qed

lemma generateHeightMap_agree:
  assumes "\<forall>x<CHUNK_SIZE. \<forall>z<CHUNK_SIZE. \<forall>p \<in> set (noiseSamples cx cz x z).
             n1 (fst p) (snd p) = n2 (fst p) (snd p)"
  shows "generateHeightMap n1 cx cz = generateHeightMap n2 cx cz"
  using assms by (simp add: generateHeightMap_def columnHeight_agree)

section \<open>The mask of a slice and the scan of an empty mask\<close>

lemma cell_index_less: "i < U \<Longrightarrow> j < V \<Longrightarrow> i + j * U < U * (V::nat)"
proof -
  assume a: "i < U" "j < V"
  then have "i + j * U < U + j * U" by simp
  also have "\<dots> = U * Suc j" by simp
  also have "\<dots> \<le> U * V" using a by (intro mult_le_mono2) simp
  finally show ?thesis .
qed

lemma cell_index_inj:
  assumes "i < U" "i' < U" "i + j * U = i' + j' * (U::nat)"
  shows "i = i' \<and> j = j'"
proof -
  have "(i + j * U) mod U = i" "(i' + j' * U) mod U = i'" using assms(1,2) by simp_all
  then have i: "i = i'" using assms(3) by metis
  have "(i + j * U) div U = j" "(i' + j' * U) div U = j'" using assms(1,2) by simp_all
  then have "j = j'" using assms(3) by metis
  with i show ?thesis by simp
qed

lemma scanRow_none:
  "(\<forall>i'. i \<le> i' \<and> i' < U \<longrightarrow> msk ! (i' + j * U) = None) \<Longrightarrow>
   scanRow axis s U V j i msk = ([], msk)"
proof (induction "U - i" arbitrary: i)
  case 0
  then show ?case by (subst scanRow.simps) simp
next
  case (Suc n)
  then have "i < U" by simp
  moreover have "msk ! (i + j * U) = None" using Suc.prems \<open>i < U\<close> by simp
  moreover have "scanRow axis s U V j (i + 1) msk = ([], msk)"
    using Suc by (intro Suc.hyps) auto
  ultimately show ?case by (subst scanRow.simps) simp
qed

lemma fold_rows_none:
  "(\<forall>j \<in> set js. scanRow axis s U V j 0 msk = ([], msk)) \<Longrightarrow>
   fold (\<lambda>j (quads, msk). case scanRow axis s U V j 0 msk of
                    (quads', msk') \<Rightarrow> (quads @ quads', msk')) js (qs, msk) = (qs, msk)"
  by (induction js) simp_all

lemma scanSlice_none:
  assumes "maskIs msk U V (\<lambda>i j. None)"
  shows "scanSlice axis s U V msk = []"
proof -
  have "\<forall>j \<in> set [0..<V]. scanRow axis s U V j 0 msk = ([], msk)"
    using assms by (auto simp: maskIs_def intro!: scanRow_none)
  then show ?thesis unfolding scanSlice_def by (simp add: fold_rows_none)
qed

lemma condUpdate_row:
  assumes "length m = U * V" "dv < V" "k \<le> U"
  shows "length (fold (condUpdate f U dv) [0..<k] m) = U * V \<and>
         (\<forall>i<U. \<forall>j<V. fold (condUpdate f U dv) [0..<k] m ! (i + j * U) =
            (if j = dv \<and> i < k \<and> f i dv \<noteq> None then f i dv else m ! (i + j * U)))"
  using assms(3)
proof (induction k)
  case 0
  then show ?case using assms(1) by simp
next
  case (Suc k)
  let ?m = "fold (condUpdate f U dv) [0..<k] m"
  have IH: "length ?m = U * V"
    "\<And>i j. i < U \<Longrightarrow> j < V \<Longrightarrow> ?m ! (i + j * U) =
        (if j = dv \<and> i < k \<and> f i dv \<noteq> None then f i dv else m ! (i + j * U))"
    using Suc by simp_all
  have k: "k < U" using Suc.prems by simp
  have step: "fold (condUpdate f U dv) [0..<Suc k] m = condUpdate f U dv k ?m" by simp
  show ?case
  proof (cases "f k dv")
    case None
    then have "condUpdate f U dv k ?m = ?m" by (simp add: condUpdate_def)
    with IH None show ?thesis unfolding step
      by (auto simp: less_Suc_eq)
  next
    case (Some t)
    then have c: "condUpdate f U dv k ?m = ?m[k + dv * U := Some t]" by (simp add: condUpdate_def)
    have len: "length (?m[k + dv * U := Some t]) = U * V" using IH(1) by simp
    have "?m[k + dv * U := Some t] ! (i + j * U) =
         (if j = dv \<and> i < Suc k \<and> f i dv \<noteq> None then f i dv else m ! (i + j * U))"
      if "i < U" "j < V" for i j
    proof (cases "i = k \<and> j = dv")
      case True
      then show ?thesis using Some IH(1) cell_index_less [OF k assms(2)] by simp
    next
      case False
      then have "k + dv * U \<noteq> i + j * U" using cell_index_inj [OF k that(1)] by blast
      then have "?m[k + dv * U := Some t] ! (i + j * U) = ?m ! (i + j * U)" by simp
      then show ?thesis using IH(2) [OF that] False by (auto simp: less_Suc_eq)
    qed
    with len show ?thesis unfolding step c by blast
  qed
qed

lemma condUpdate_rows:
  assumes "n \<le> V"
  shows "length (fold (\<lambda>dv m. fold (condUpdate f U dv) [0..<U] m) [0..<n] (replicate (U * V) None)) = U * V \<and>
         (\<forall>i<U. \<forall>j<V. fold (\<lambda>dv m. fold (condUpdate f U dv) [0..<U] m) [0..<n] (replicate (U * V) None) ! (i + j * U) =
            (if j < n then f i j else None))"
  using assms
proof (induction n)
  case 0
  then show ?case by (simp add: cell_index_less)
next
  case (Suc n)
  let ?m = "fold (\<lambda>dv m. fold (condUpdate f U dv) [0..<U] m) [0..<n] (replicate (U * V) None)"
  have IH: "length ?m = U * V"
    "\<And>i j. i < U \<Longrightarrow> j < V \<Longrightarrow> ?m ! (i + j * U) = (if j < n then f i j else None)"
    using Suc by simp_all
  have n: "n < V" using Suc.prems by simp
  have step: "fold (\<lambda>dv m. fold (condUpdate f U dv) [0..<U] m) [0..<Suc n] (replicate (U * V) None)
      = fold (condUpdate f U n) [0..<U] ?m" by simp
  from condUpdate_row [OF IH(1) n order_refl, of f]
  show ?case unfolding step using IH(2) by (auto simp: less_Suc_eq)
qed

lemma maskCell_condUpdate:
  assumes "axis < 3"
  shows "maskCell c axis ([0, 0, 0][axis := s, (axis + 2) mod 3 := dv, (axis + 1) mod 3 := du]) =
         condUpdate (maskSpec c axis s) (dims ! axis ! ((axis + 1) mod 3)) dv du"
proof -
  from assms consider "axis = 0" | "axis = 1" | "axis = 2" by linarith
  then show ?thesis
    by cases (simp_all add: fun_eq_iff maskCell_def maskSpec_def condUpdate_def Let_def)
qed

lemma buildMask_maskIs:
  assumes "axis < 3"
  shows "maskIs (buildMask c axis s) (dims ! axis ! ((axis + 1) mod 3))
           (dims ! axis ! ((axis + 2) mod 3)) (maskSpec c axis s)"
proof -
  have "buildMask c axis s =
     fold (\<lambda>dv m. fold (condUpdate (maskSpec c axis s) (dims ! axis ! ((axis + 1) mod 3)) dv)
                   [0..<dims ! axis ! ((axis + 1) mod 3)] m)
          [0..<dims ! axis ! ((axis + 2) mod 3)]
          (replicate (dims ! axis ! ((axis + 1) mod 3) * dims ! axis ! ((axis + 2) mod 3)) None)"
    by (simp only: buildMask_def Let_def maskCell_condUpdate [OF assms])
  then show ?thesis
    using condUpdate_rows [OF order_refl, where U = "dims ! axis ! ((axis + 1) mod 3)"
        and V = "dims ! axis ! ((axis + 2) mod 3)" and f = "maskSpec c axis s"]
    by (simp add: maskIs_def)
qed

section \<open>The quads of the meshers and the buffers built from them\<close>

text \<open>Every quad of the greedy mesher is a \<open>mergedQuad\<close> of its sweep axis: four corners,
  and the unit vector of the axis as normal.\<close>

lemma isMerged_mergedQuad [simp]: "isMerged axis (mergedQuad axis s i j w h t)"
  unfolding isMerged_def by blast

lemma scanRow_isMerged:
  "\<forall>q \<in> set (fst (scanRow axis s U V j i msk)). isMerged axis q"
proof (induction axis s U V j i msk rule: scanRow.induct)
  case (1 axis s U V j i msk)
  show ?case
  proof (cases "i < U")
    case False
    then show ?thesis by (subst scanRow.simps) simp
  next
    case True
    show ?thesis
    proof (cases "msk ! (i + j * U)")
      case None
      with True "1.IH"(1) show ?thesis by (subst scanRow.simps) simp
    next
      case (Some t)
      from "1.IH"(2) [OF True Some refl refl refl refl]
      show ?thesis
        by (subst scanRow.simps) (auto simp: True Some Let_def split: prod.splits)
    qed
  qed
qed

lemma fold_rows_isMerged:
  "\<forall>q \<in> set qs. isMerged axis q \<Longrightarrow>
   \<forall>q \<in> set (fst (fold (\<lambda>j (quads, msk). case scanRow axis s U V j 0 msk of
                    (quads', msk') \<Rightarrow> (quads @ quads', msk')) js (qs, msk))). isMerged axis q"
proof (induction js arbitrary: qs msk)
  case Nil
  then show ?case by simp
next
  case (Cons j js)
  obtain qs' msk' where r: "scanRow axis s U V j 0 msk = (qs', msk')" by (cases "scanRow axis s U V j 0 msk")
  have "\<forall>q \<in> set qs'. isMerged axis q" using scanRow_isMerged [of axis s U V j 0 msk] r by simp
  with Cons.prems have "\<forall>q \<in> set (qs @ qs'). isMerged axis q" by auto
  from Cons.IH [OF this] show ?case by (simp add: r)
qed

lemma greedyQuads_isMerged:
  "q \<in> set (greedyQuads c) \<Longrightarrow> \<exists>axis<3. isMerged axis q"
  using fold_rows_isMerged [of "[]"]
  by (fastforce simp: greedyQuads_def axisQuads_def sliceQuads_def scanSlice_def Let_def)

lemma isMerged_corners: "isMerged axis q \<Longrightarrow> length (corners q) = 4"
  by (auto simp: isMerged_def mergedQuad_def Let_def)

lemma isMerged_normal:
  "axis < 3 \<Longrightarrow> isMerged axis q \<Longrightarrow> qnormal q = ([(1,0,0), (0,1,0), (0,0,1)] ! axis)"
proof -
  assume a: "axis < 3" "isMerged axis q"
  from a(1) consider "axis = 0" | "axis = 1" | "axis = 2" by linarith
  then show ?thesis using a(2)
    by cases (auto simp: isMerged_def mergedQuad_def Let_def)
qed

lemma bvertices_fold_pushQuad:
  "bvertices (fold pushQuad qs b) = bvertices b @ concat (map (\<lambda>q. concat (map triple (corners q))) qs)"
  by (induction qs arbitrary: b) (simp_all add: pushQuad_def Let_def)

lemma bindices_fold_pushQuad:
  "length (bindices (fold pushQuad qs b)) = length (bindices b) + 6 * length qs"
  by (induction qs arbitrary: b) (simp_all add: pushQuad_def Let_def)

lemma length_concat_const:
  "\<forall>x \<in> set xs. length (f x) = n \<Longrightarrow> length (concat (map f xs)) = n * length xs"
  by (induction xs) simp_all

lemma length_bvertices:
  assumes "\<forall>q \<in> set qs. length (corners q) = 4"
  shows "length (bvertices (fold pushQuad qs emptyBuffers)) = 12 * length qs"
proof -
  have "\<forall>q \<in> set qs. length (concat (map triple (corners q))) = 12"
  proof
    fix q assume "q \<in> set qs"
    with assms have "length (corners q) = 4" by simp
    moreover have "\<forall>p \<in> set (corners q). length (triple p) = 3" by (auto simp: triple_def)
    ultimately show "length (concat (map triple (corners q))) = 12"
      using length_concat_const [of "corners q" triple 3] by simp
  qed
  then show ?thesis
    by (simp add: bvertices_fold_pushQuad emptyBuffers_def length_concat_const)
qed

lemma finishMesh_None_iff:
  assumes "\<forall>q \<in> set qs. length (corners q) = 4"
  shows "finishMesh (fold pushQuad qs emptyBuffers) = None \<longleftrightarrow> qs = []"
  using length_bvertices [OF assms] by (auto simp: finishMesh_def)

lemma cellQuads_corners: "\<forall>q \<in> set (cellQuads c x y z). length (corners q) = 4"
  by (auto simp: cellQuads_def faceQuad_def Let_def faces_def)

lemma simpleQuads_corners: "\<forall>q \<in> set (simpleQuads c). length (corners q) = 4"
  using cellQuads_corners by (auto simp: simpleQuads_def)

lemma greedyQuads_corners: "\<forall>q \<in> set (greedyQuads c). length (corners q) = 4"
  using greedyQuads_isMerged isMerged_corners by blast

section \<open>Grids without geometry\<close>

lemma getBlock_allAir: "allAir c \<Longrightarrow> getBlock c a b d = AIR"
  by (auto simp: allAir_def getBlock_def)

lemma simpleQuads_allAir: "allAir c \<Longrightarrow> simpleQuads c = []"
  by (auto simp: allAir_def simpleQuads_def cellQuads_def)

lemma sliceQuads_empty:
  assumes "axis < 3" "\<forall>i j. maskSpec c axis s i j = None"
  shows "sliceQuads c axis s = []"
proof -
  from buildMask_maskIs [OF assms(1), of c s] assms(2)
  have "maskIs (buildMask c axis s) (dims ! axis ! ((axis + 1) mod 3))
           (dims ! axis ! ((axis + 2) mod 3)) (\<lambda>i j. None)"
    by (simp add: maskIs_def)
  then show ?thesis by (simp add: sliceQuads_def scanSlice_none)
qed

lemma greedyQuads_allAir:
  assumes "allAir c"
  shows "greedyQuads c = []"
proof -
  have "maskSpec c axis s i j = None" for axis s i j
    using getBlock_allAir [OF assms] by (simp add: maskSpec_def Let_def)
  then have "sliceQuads c axis s = []" if "axis < 3" for axis s
    using sliceQuads_empty [OF that] by simp
  then show ?thesis by (simp add: greedyQuads_def axisQuads_def)
qed

text \<open>
  C9. Each mesher returns \<open>null\<close> exactly when it emitted no quad, and a mesh with
  non-empty buffers otherwise; for a grid whose cells are all Air both return \<open>null\<close>.
\<close>

theorem meshers_null_iff_no_quads:
  "(createSimpleChunkMesh c = None \<longleftrightarrow> simpleQuads c = []) \<and>
   (createGreedyChunkMesh c = None \<longleftrightarrow> greedyQuads c = []) \<and>
   ((\<forall>x<16. \<forall>y<64. \<forall>z<16. c ! x ! y ! z = AIR) \<longrightarrow>
      createSimpleChunkMesh c = None \<and> createGreedyChunkMesh c = None)"
proof -
  have s: "createSimpleChunkMesh c = None \<longleftrightarrow> simpleQuads c = []"
    unfolding createSimpleChunkMesh_def by (rule finishMesh_None_iff [OF simpleQuads_corners])
  have g: "createGreedyChunkMesh c = None \<longleftrightarrow> greedyQuads c = []"
    unfolding createGreedyChunkMesh_def by (rule finishMesh_None_iff [OF greedyQuads_corners])
  have "simpleQuads c = [] \<and> greedyQuads c = []"
    if "\<forall>x<16. \<forall>y<64. \<forall>z<16. c ! x ! y ! z = AIR"
  proof -
    from that have "allAir c" by (simp add: allAir_def CHUNK_SIZE_def CHUNK_HEIGHT_def)
    then show ?thesis by (simp add: simpleQuads_allAir greedyQuads_allAir)
  qed
  with s g show ?thesis by blast
qed

theorem meshers_null_iff_no_quads_witness:
  "createSimpleChunkMesh (uniformChunk AIR) = None \<and>
   createGreedyChunkMesh (uniformChunk AIR) = None"
proof -
  have a: "\<forall>x<16. \<forall>y<64. \<forall>z<16. uniformChunk AIR ! x ! y ! z = AIR"
    by (simp add: uniformChunk_def CHUNK_SIZE_def CHUNK_HEIGHT_def)
  with meshers_null_iff_no_quads [of "uniformChunk AIR"] show ?thesis by blast
qed

section \<open>The scan of a mask that holds one rectangle\<close>

text \<open>When the mask of a slice is a single \<open>W \<times> H\<close> rectangle of one block type, the width
  search returns \<open>W\<close>, the height search \<open>H\<close>, one quad is pushed and the mask is left
  empty.\<close>

lemma findWidth_rect:
  assumes "maskIs msk U V (rectMask i0 W j0 H t)"
    and "0 < H" "i0 + W \<le> U" "j0 + H \<le> V"
  shows "w \<le> W \<Longrightarrow> findWidth msk U i0 j0 t w = W"
proof (induction "W - w" arbitrary: w)
  case 0
  then have w: "w = W" by simp
  have m: "\<And>i j. i < U \<Longrightarrow> j < V \<Longrightarrow> msk ! (i + j * U) = rectMask i0 W j0 H t i j"
    using assms(1) by (simp add: maskIs_def)
  have j0: "j0 < V" using assms(2,4) by simp
  have "\<not> (i0 + W < U \<and> msk ! (i0 + W + j0 * U) = Some t)"
  proof
    assume a: "i0 + W < U \<and> msk ! (i0 + W + j0 * U) = Some t"
    then have "i0 + W < U" by simp
    from m [OF this j0] have "msk ! (i0 + W + j0 * U) = None" by (simp add: rectMask_def)
    with a show False by simp
  qed
  then show ?case unfolding w by (subst findWidth.simps) auto
next
  case (Suc n)
  then have w: "w < W" by simp
  then have lt: "i0 + w < U" using assms(3) by simp
  have "msk ! (i0 + w + j0 * U) = rectMask i0 W j0 H t (i0 + w) j0"
    using assms lt by (simp add: maskIs_def)
  then have c: "msk ! (i0 + w + j0 * U) = Some t" using w assms(2) by (simp add: rectMask_def)
  have "findWidth msk U i0 j0 t (w + 1) = W" using Suc w by (intro Suc.hyps) simp_all
  with lt c show ?case by (subst findWidth.simps) simp
qed

lemma rowMatches_rect:
  assumes "maskIs msk U V (rectMask i0 W j0 H t)"
    and "0 < W" "i0 + W \<le> U" "j0 + h < V"
  shows "rowMatches msk U i0 j0 t W h \<longleftrightarrow> h < H"
proof -
  have "msk ! (i0 + k + (j0 + h) * U) = rectMask i0 W j0 H t (i0 + k) (j0 + h)" if "k < W" for k
    using assms that by (simp add: maskIs_def)
  then have "rowMatches msk U i0 j0 t W h \<longleftrightarrow> (\<forall>k<W. rectMask i0 W j0 H t (i0 + k) (j0 + h) = Some t)"
    by (auto simp: rowMatches_def list_all_iff)
  also have "\<dots> \<longleftrightarrow> h < H" using assms(2) by (auto simp: rectMask_def)
  finally show ?thesis .
qed

lemma findHeight_rect:
  assumes "maskIs msk U V (rectMask i0 W j0 H t)"
    and "0 < W" "i0 + W \<le> U" "j0 + H \<le> V"
  shows "h \<le> H \<Longrightarrow> findHeight msk U V i0 j0 t W h = H"
proof (induction "H - h" arbitrary: h)
  case 0
  then have h: "h = H" by simp
  have "\<not> (j0 + H < V \<and> rowMatches msk U i0 j0 t W H)"
    using rowMatches_rect [OF assms(1,2,3), of H] by auto
  then show ?case unfolding h by (subst findHeight.simps) auto
next
  case (Suc n)
  then have h: "h < H" by simp
  then have lt: "j0 + h < V" using assms(4) by simp
  have c: "rowMatches msk U i0 j0 t W h" using rowMatches_rect [OF assms(1,2,3) lt] h by simp
  have "findHeight msk U V i0 j0 t W (h + 1) = H" using Suc h by (intro Suc.hyps) simp_all
  with lt c show ?case by (subst findHeight.simps) simp
qed

lemma clear_row:
  assumes "length m = U * V" "j0 + l < V" "i0 + k \<le> U"
  shows "length (fold (\<lambda>k m. m[i0 + k + (j0 + l) * U := None]) [0..<k] m) = U * V \<and>
         (\<forall>i<U. \<forall>j<V. fold (\<lambda>k m. m[i0 + k + (j0 + l) * U := None]) [0..<k] m ! (i + j * U) =
            (if j = j0 + l \<and> i0 \<le> i \<and> i < i0 + k then None else m ! (i + j * U)))"
  using assms(3)
proof (induction k)
  case 0
  then show ?case using assms(1) by auto
next
  case (Suc k)
  let ?m = "fold (\<lambda>k m. m[i0 + k + (j0 + l) * U := None]) [0..<k] m"
  have IH: "length ?m = U * V"
    "\<And>i j. i < U \<Longrightarrow> j < V \<Longrightarrow> ?m ! (i + j * U) =
        (if j = j0 + l \<and> i0 \<le> i \<and> i < i0 + k then None else m ! (i + j * U))"
    using Suc by simp_all
  have k: "i0 + k < U" using Suc.prems by simp
  have step: "fold (\<lambda>k m. m[i0 + k + (j0 + l) * U := None]) [0..<Suc k] m
       = ?m[i0 + k + (j0 + l) * U := None]" by simp
  have "?m[i0 + k + (j0 + l) * U := None] ! (i + j * U) =
         (if j = j0 + l \<and> i0 \<le> i \<and> i < i0 + Suc k then None else m ! (i + j * U))"
    if "i < U" "j < V" for i j
  proof (cases "i = i0 + k \<and> j = j0 + l")
    case True
    then show ?thesis using IH(1) cell_index_less [OF k assms(2)] by simp
  next
    case False
    then have "i0 + k + (j0 + l) * U \<noteq> i + j * U" using cell_index_inj [OF k that(1)] by blast
    then have "?m[i0 + k + (j0 + l) * U := None] ! (i + j * U) = ?m ! (i + j * U)" by simp
    then show ?thesis using IH(2) [OF that] False by (auto simp: less_Suc_eq)
  qed
  then show ?case unfolding step using IH(1) by simp
qed

lemma clearMask_rect:
  assumes "length m = U * V" "i0 + W \<le> U" "j0 + h \<le> V"
  shows "length (clearMask m U i0 j0 W h) = U * V \<and>
         (\<forall>i<U. \<forall>j<V. clearMask m U i0 j0 W h ! (i + j * U) =
            (if j0 \<le> j \<and> j < j0 + h \<and> i0 \<le> i \<and> i < i0 + W then None else m ! (i + j * U)))"
  using assms(3)
proof (induction h)
  case 0
  then show ?case using assms(1) by (auto simp: clearMask_def)
next
  case (Suc h)
  let ?m = "clearMask m U i0 j0 W h"
  have IH: "length ?m = U * V"
    "\<And>i j. i < U \<Longrightarrow> j < V \<Longrightarrow> ?m ! (i + j * U) =
        (if j0 \<le> j \<and> j < j0 + h \<and> i0 \<le> i \<and> i < i0 + W then None else m ! (i + j * U))"
    using Suc by simp_all
  have h: "j0 + h < V" using Suc.prems by simp
  have step: "clearMask m U i0 j0 W (Suc h) =
      fold (\<lambda>k m. m[i0 + k + (j0 + h) * U := None]) [0..<W] ?m"
    by (simp add: clearMask_def)
  from clear_row [OF IH(1) h assms(2)]
  show ?case unfolding step using IH(2) by (auto simp: less_Suc_eq)
qed

lemma clearMask_rectMask:
  assumes "maskIs msk U V (rectMask i0 W j0 H t)" "i0 + W \<le> U" "j0 + H \<le> V"
  shows "maskIs (clearMask msk U i0 j0 W H) U V (\<lambda>i j. None)"
  using clearMask_rect [OF _ assms(2,3), of msk] assms(1)
  by (auto simp: maskIs_def rectMask_def)

lemma scanRow_rect:
  assumes "maskIs msk U V (rectMask i0 W j0 H t)"
    and "0 < W" "0 < H" "i0 + W \<le> U" "j0 + H \<le> V"
  shows "i \<le> i0 \<Longrightarrow> scanRow axis s U V j0 i msk =
           ([mergedQuad axis s i0 j0 W H t], clearMask msk U i0 j0 W H)"
proof (induction "i0 - i" arbitrary: i)
  case 0
  then have i: "i = i0" by simp
  have lt: "i0 < U" "j0 < V" using assms by simp_all
  have "msk ! (i0 + j0 * U) = rectMask i0 W j0 H t i0 j0" using assms(1) lt by (simp add: maskIs_def)
  then have c: "msk ! (i0 + j0 * U) = Some t" using assms(2,3) by (simp add: rectMask_def)
  have w: "findWidth msk U i0 j0 t (Suc 0) = W"
    using findWidth_rect [OF assms(1,3,4,5), of "Suc 0"] assms(2) by simp
  have h: "findHeight msk U V i0 j0 t W (Suc 0) = H"
    using findHeight_rect [OF assms(1,2,4,5), of "Suc 0"] assms(3) by simp
  have "maskIs (clearMask msk U i0 j0 W H) U V (\<lambda>i j. None)"
    by (rule clearMask_rectMask [OF assms(1,4,5)])
  then have r: "scanRow axis s U V j0 (i0 + W) (clearMask msk U i0 j0 W H) = ([], clearMask msk U i0 j0 W H)"
    using lt(2) by (intro scanRow_none) (simp add: maskIs_def)
  show ?case unfolding i by (subst scanRow.simps) (simp add: lt c w h r Let_def)
next
  case (Suc n)
  then have i: "i < i0" by simp
  then have lt: "i < U" "j0 < V" using assms by simp_all
  have "msk ! (i + j0 * U) = rectMask i0 W j0 H t i j0" using assms(1) lt by (simp add: maskIs_def)
  then have c: "msk ! (i + j0 * U) = None" using i by (simp add: rectMask_def)
  have "scanRow axis s U V j0 (i + 1) msk = ([mergedQuad axis s i0 j0 W H t], clearMask msk U i0 j0 W H)"
    using Suc i by (intro Suc.hyps) simp_all
  with lt c show ?case by (subst scanRow.simps) simp
qed

lemma scanSlice_rect:
  assumes "maskIs msk U V (rectMask i0 W j0 H t)"
    and "0 < W" "0 < H" "i0 + W \<le> U" "j0 + H \<le> V"
  shows "scanSlice axis s U V msk = [mergedQuad axis s i0 j0 W H t]"
proof -
  let ?f = "\<lambda>j (quads, msk). case scanRow axis s U V j 0 msk of
                    (quads', msk') \<Rightarrow> (quads @ quads', msk')"
  let ?Q = "mergedQuad axis s i0 j0 W H t"
  let ?c = "clearMask msk U i0 j0 W H"
  have j0: "j0 < V" using assms by simp
  have split: "[0..<V] = [0..<j0] @ j0 # [Suc j0..<V]"
    using j0 by (metis le0 upt_conv_Cons upt_add_eq_append le_add_diff_inverse less_imp_le_nat)
  have before: "\<forall>j \<in> set [0..<j0]. scanRow axis s U V j 0 msk = ([], msk)"
  proof
    fix j assume "j \<in> set [0..<j0]"
    then have j: "j < j0" "j < V" using j0 by simp_all
    have "\<forall>i'. 0 \<le> i' \<and> i' < U \<longrightarrow> msk ! (i' + j * U) = None"
      using assms(1) j by (simp add: maskIs_def rectMask_def)
    then show "scanRow axis s U V j 0 msk = ([], msk)" by (rule scanRow_none)
  qed
  have cleared: "maskIs ?c U V (\<lambda>i j. None)" by (rule clearMask_rectMask [OF assms(1,4,5)])
  have after: "\<forall>j \<in> set [Suc j0..<V]. scanRow axis s U V j 0 ?c = ([], ?c)"
    using cleared by (auto simp: maskIs_def intro!: scanRow_none)
  have "fold ?f [0..<V] ([], msk) = fold ?f [Suc j0..<V] (?f j0 (fold ?f [0..<j0] ([], msk)))"
    by (subst split) simp
  also have "fold ?f [0..<j0] ([], msk) = ([], msk)" by (rule fold_rows_none [OF before])
  also have "?f j0 ([], msk) = ([?Q], ?c)"
    using scanRow_rect [OF assms, of 0 axis s] by simp
  also have "fold ?f [Suc j0..<V] ([?Q], ?c) = ([?Q], ?c)" by (rule fold_rows_none [OF after])
  finally show ?thesis by (simp add: scanSlice_def)
qed

section \<open>The greedy mesher on a grid that holds one box\<close>

lemma getBlock_box:
  assumes "isBox c x0 x1 y0 y1 z0 z1 t"
  shows "getBlock c (int a) (int b) (int d) =
           (if x0 \<le> a \<and> a < x1 \<and> y0 \<le> b \<and> b < y1 \<and> z0 \<le> d \<and> d < z1 then t else AIR)"
  using assms by (auto simp: isBox_def getBlock_def)

lemma getBlock_box_next:
  assumes "isBox c x0 x1 y0 y1 z0 z1 t"
  shows "getBlock c (int a + 1) (int b) (int d) =
           (if x0 \<le> Suc a \<and> Suc a < x1 \<and> y0 \<le> b \<and> b < y1 \<and> z0 \<le> d \<and> d < z1 then t else AIR)"
    and "getBlock c (int a) (int b + 1) (int d) =
           (if x0 \<le> a \<and> a < x1 \<and> y0 \<le> Suc b \<and> Suc b < y1 \<and> z0 \<le> d \<and> d < z1 then t else AIR)"
    and "getBlock c (int a) (int b) (int d + 1) =
           (if x0 \<le> a \<and> a < x1 \<and> y0 \<le> b \<and> b < y1 \<and> z0 \<le> Suc d \<and> Suc d < z1 then t else AIR)"
  using getBlock_box [OF assms, of "Suc a" b d] getBlock_box [OF assms, of a "Suc b" d]
    getBlock_box [OF assms, of a b "Suc d"]
  by (simp_all add: add.commute)

lemma maskSpec_box_0:
  assumes "isBox c x0 x1 y0 y1 z0 z1 t"
  shows "maskSpec c 0 s =
           (if s + 1 = x1 then rectMask y0 (y1 - y0) z0 (z1 - z0) t else (\<lambda>i j. None))"
proof -
  have t: "t \<noteq> AIR" "x0 < x1" "y0 < y1" "z0 < z1" using assms by (simp_all add: isBox_def)
  show ?thesis using t
    by (auto simp: fun_eq_iff maskSpec_def Let_def rectMask_def getBlock_box [OF assms]
          getBlock_box_next [OF assms])
qed

lemma maskSpec_box_1:
  assumes "isBox c x0 x1 y0 y1 z0 z1 t"
  shows "maskSpec c (Suc 0) s =
           (if s + 1 = y1 then rectMask z0 (z1 - z0) x0 (x1 - x0) t else (\<lambda>i j. None))"
proof -
  have t: "t \<noteq> AIR" "x0 < x1" "y0 < y1" "z0 < z1" using assms by (simp_all add: isBox_def)
  show ?thesis using t
    by (auto simp: fun_eq_iff maskSpec_def Let_def rectMask_def getBlock_box [OF assms]
          getBlock_box_next [OF assms])
qed

lemma maskSpec_box_2:
  assumes "isBox c x0 x1 y0 y1 z0 z1 t"
  shows "maskSpec c 2 s =
           (if s + 1 = z1 then rectMask x0 (x1 - x0) y0 (y1 - y0) t else (\<lambda>i j. None))"
proof -
  have t: "t \<noteq> AIR" "x0 < x1" "y0 < y1" "z0 < z1" using assms by (simp_all add: isBox_def)
  show ?thesis using t
    by (auto simp: fun_eq_iff maskSpec_def Let_def rectMask_def getBlock_box [OF assms]
          getBlock_box_next [OF assms])
qed

lemma sliceQuads_rect:
  assumes "axis < 3" "maskSpec c axis s = rectMask i0 W j0 H t"
    and "0 < W" "0 < H" "i0 + W \<le> dims ! axis ! ((axis + 1) mod 3)"
    and "j0 + H \<le> dims ! axis ! ((axis + 2) mod 3)"
  shows "sliceQuads c axis s = [mergedQuad axis s i0 j0 W H t]"
proof -
  from buildMask_maskIs [OF assms(1), of c s] assms(2)
  have "maskIs (buildMask c axis s) (dims ! axis ! ((axis + 1) mod 3))
           (dims ! axis ! ((axis + 2) mod 3)) (rectMask i0 W j0 H t)"
    by simp
  from scanSlice_rect [OF this assms(3,4,5,6)] show ?thesis by (simp add: sliceQuads_def)
qed

lemma concat_map_single:
  assumes "k < n" "\<forall>s<n. s \<noteq> k \<longrightarrow> f s = []"
  shows "concat (map f [0..<n]) = f k"
proof -
  have split: "[0..<n] = [0..<k] @ k # [Suc k..<n]"
    using assms(1) by (metis le0 upt_conv_Cons upt_add_eq_append le_add_diff_inverse less_imp_le_nat)
  have a: "concat (map f [0..<k]) = []" using assms by simp
  have b: "concat (map f [Suc k..<n]) = []" using assms by simp
  show ?thesis unfolding split by (simp add: a b)
qed

lemma axisQuads_box_0:
  assumes "isBox c x0 x1 y0 y1 z0 z1 t"
  shows "axisQuads c 0 = [mergedQuad 0 (x1 - 1) y0 z0 (y1 - y0) (z1 - z0) t]"
proof -
  have b: "x0 < x1" "x1 \<le> 16" "y0 < y1" "y1 \<le> 64" "z0 < z1" "z1 \<le> 16"
    using assms by (simp_all add: isBox_def CHUNK_SIZE_def CHUNK_HEIGHT_def)
  have top: "sliceQuads c 0 (x1 - 1) = [mergedQuad 0 (x1 - 1) y0 z0 (y1 - y0) (z1 - z0) t]"
    using b by (intro sliceQuads_rect)
      (simp_all add: maskSpec_box_0 [OF assms] dims_def CHUNK_SIZE_def CHUNK_HEIGHT_def)
  have other: "\<forall>s<16. s \<noteq> x1 - 1 \<longrightarrow> sliceQuads c 0 s = []"
    using b by (auto intro!: sliceQuads_empty simp: maskSpec_box_0 [OF assms])
  have "axisQuads c 0 = concat (map (sliceQuads c 0) [0..<16])"
    by (simp add: axisQuads_def dims_def CHUNK_SIZE_def)
  also have "\<dots> = sliceQuads c 0 (x1 - 1)" using b other by (intro concat_map_single) simp_all
  finally show ?thesis using top by simp
qed

lemma axisQuads_box_1:
  assumes "isBox c x0 x1 y0 y1 z0 z1 t" "y1 \<le> 16"
  shows "axisQuads c (Suc 0) = [mergedQuad (Suc 0) (y1 - 1) z0 x0 (z1 - z0) (x1 - x0) t]"
proof -
  have b: "x0 < x1" "x1 \<le> 16" "y0 < y1" "y1 \<le> 64" "z0 < z1" "z1 \<le> 16"
    using assms by (simp_all add: isBox_def CHUNK_SIZE_def CHUNK_HEIGHT_def)
  have top: "sliceQuads c (Suc 0) (y1 - 1) = [mergedQuad (Suc 0) (y1 - 1) z0 x0 (z1 - z0) (x1 - x0) t]"
    using b by (intro sliceQuads_rect)
      (simp_all add: maskSpec_box_1 [OF assms(1)] dims_def CHUNK_SIZE_def CHUNK_HEIGHT_def)
  have other: "\<forall>s<16. s \<noteq> y1 - 1 \<longrightarrow> sliceQuads c (Suc 0) s = []"
    using b by (auto intro!: sliceQuads_empty simp: maskSpec_box_1 [OF assms(1)])
  have "axisQuads c (Suc 0) = concat (map (sliceQuads c (Suc 0)) [0..<16])"
    by (simp add: axisQuads_def dims_def CHUNK_SIZE_def)
  also have "\<dots> = sliceQuads c (Suc 0) (y1 - 1)" using b assms(2) other by (intro concat_map_single) simp_all
  finally show ?thesis using top by simp
qed

lemma axisQuads_box_2:
  assumes "isBox c x0 x1 y0 y1 z0 z1 t" "y1 \<le> 16"
  shows "axisQuads c 2 = [mergedQuad 2 (z1 - 1) x0 y0 (x1 - x0) (y1 - y0) t]"
proof -
  have b: "x0 < x1" "x1 \<le> 16" "y0 < y1" "y1 \<le> 64" "z0 < z1" "z1 \<le> 16"
    using assms by (simp_all add: isBox_def CHUNK_SIZE_def CHUNK_HEIGHT_def)
  have top: "sliceQuads c 2 (z1 - 1) = [mergedQuad 2 (z1 - 1) x0 y0 (x1 - x0) (y1 - y0) t]"
    using b assms(2) by (intro sliceQuads_rect)
      (simp_all add: maskSpec_box_2 [OF assms(1)] dims_def CHUNK_SIZE_def CHUNK_HEIGHT_def)
  have other: "\<forall>s<64. s \<noteq> z1 - 1 \<longrightarrow> sliceQuads c 2 s = []"
    using b by (auto intro!: sliceQuads_empty simp: maskSpec_box_2 [OF assms(1)])
  have "axisQuads c 2 = concat (map (sliceQuads c 2) [0..<64])"
    by (simp add: axisQuads_def dims_def CHUNK_HEIGHT_def)
  also have "\<dots> = sliceQuads c 2 (z1 - 1)" using b other by (intro concat_map_single) simp_all
  finally show ?thesis using top by simp
qed

lemma upt_3: "[0..<3] = [0, Suc 0, 2]"
  by (simp add: upt_rec)

lemma greedyQuads_box:
  assumes "isBox c x0 x1 y0 y1 z0 z1 t" "y1 \<le> 16"
  shows "greedyQuads c =
     [ mergedQuad 0 (x1 - 1) y0 z0 (y1 - y0) (z1 - z0) t,
       mergedQuad (Suc 0) (y1 - 1) z0 x0 (z1 - z0) (x1 - x0) t,
       mergedQuad 2 (z1 - 1) x0 y0 (x1 - x0) (y1 - y0) t ]"
  by (simp add: greedyQuads_def upt_3 axisQuads_box_0 [OF assms(1)]
        axisQuads_box_1 [OF assms] axisQuads_box_2 [OF assms])

section \<open>The naive mesher on a single cell, and both meshers on a solid grid\<close>

lemma isBox_boxChunk:
  assumes "x0 < x1" "x1 \<le> CHUNK_SIZE" "y0 < y1" "y1 \<le> CHUNK_HEIGHT" "z0 < z1" "z1 \<le> CHUNK_SIZE"
    and "t \<noteq> AIR"
  shows "isBox (boxChunk x0 x1 y0 y1 z0 z1 t) x0 x1 y0 y1 z0 z1 t"
  using assms by (simp add: isBox_def boxChunk_def)

lemma getBlock_box_int:
  assumes "isBox c x0 x1 y0 y1 z0 z1 t"
  shows "getBlock c a b d =
           (if int x0 \<le> a \<and> a < int x1 \<and> int y0 \<le> b \<and> b < int y1 \<and> int z0 \<le> d \<and> d < int z1
            then t else AIR)"
proof (cases "inGrid a b d")
  case True
  then obtain a' b' d' where "a = int a'" "b = int b'" "d = int d'"
    unfolding inGrid_def by (metis nonneg_int_cases)
  then show ?thesis using getBlock_box [OF assms, of a' b' d'] by simp
next
  case False
  then have "getBlock c a b d = AIR" by (auto simp: getBlock_def inGrid_def)
  moreover have "\<not> (int x0 \<le> a \<and> a < int x1 \<and> int y0 \<le> b \<and> b < int y1 \<and> int z0 \<le> d \<and> d < int z1)"
    using False assms by (auto simp: inGrid_def isBox_def)
  ultimately show ?thesis by auto
qed

lemma cellQuads_single:
  assumes "isBox c x (x + 1) y (y + 1) z (z + 1) t"
  shows "cellQuads c x y z = map (faceQuad x y z t) faces"
proof -
  have b: "x < CHUNK_SIZE" "y < CHUNK_HEIGHT" "z < CHUNK_SIZE" "t \<noteq> AIR"
    using assms by (simp_all add: isBox_def)
  have c: "c ! x ! y ! z = t" using assms b by (simp add: isBox_def)
  have "\<forall>f \<in> set faces. shouldRenderFace c (int x) (int y) (int z) (dir f)"
    by (simp add: faces_def shouldRenderFace_def getBlock_box_int [OF assms])
  then have "filter (\<lambda>f. shouldRenderFace c (int x) (int y) (int z) (dir f)) faces = faces"
    by (simp add: filter_id_conv)
  then show ?thesis using b c by (simp add: cellQuads_def)
qed

lemma cellQuads_air:
  "c ! a ! b ! d = AIR \<Longrightarrow> cellQuads c a b d = []"
  by (simp add: cellQuads_def)

lemma simpleQuads_single:
  assumes "isBox c x (x + 1) y (y + 1) z (z + 1) t"
  shows "simpleQuads c = map (faceQuad x y z t) faces"
proof -
  have b: "x < CHUNK_SIZE" "y < CHUNK_HEIGHT" "z < CHUNK_SIZE"
    using assms by (simp_all add: isBox_def)
  have air: "cellQuads c a b d = []"
    if "a < CHUNK_SIZE" "b < CHUNK_HEIGHT" "d < CHUNK_SIZE" "\<not> (a = x \<and> b = y \<and> d = z)" for a b d
  proof -
    have "c ! a ! b ! d = AIR" using assms that unfolding isBox_def by auto
    then show ?thesis by (rule cellQuads_air)
  qed
  have row: "concat (map (\<lambda>d. cellQuads c x y d) [0..<CHUNK_SIZE]) = cellQuads c x y z"
    using b air by (intro concat_map_single) simp_all
  have rowE: "concat (map (\<lambda>d. cellQuads c a b d) [0..<CHUNK_SIZE]) = []"
    if "a < CHUNK_SIZE" "b < CHUNK_HEIGHT" "\<not> (a = x \<and> b = y)" for a b
    using that air by auto
  have plane: "concat (map (\<lambda>b. concat (map (\<lambda>d. cellQuads c x b d) [0..<CHUNK_SIZE])) [0..<CHUNK_HEIGHT])
       = concat (map (\<lambda>d. cellQuads c x y d) [0..<CHUNK_SIZE])"
    using b rowE by (intro concat_map_single) simp_all
  have planeE: "concat (map (\<lambda>b. concat (map (\<lambda>d. cellQuads c a b d) [0..<CHUNK_SIZE])) [0..<CHUNK_HEIGHT]) = []"
    if "a < CHUNK_SIZE" "a \<noteq> x" for a
    using that rowE by auto
  have "simpleQuads c =
     concat (map (\<lambda>b. concat (map (\<lambda>d. cellQuads c x b d) [0..<CHUNK_SIZE])) [0..<CHUNK_HEIGHT])"
    unfolding simpleQuads_def using b planeE by (intro concat_map_single) simp_all
  then show ?thesis by (simp add: plane row cellQuads_single [OF assms])
qed

lemma getBlock_solid:
  assumes "allSolid c"
  shows "getBlock c a b d = AIR \<longleftrightarrow> \<not> inGrid a b d"
proof (cases "inGrid a b d")
  case True
  then obtain a' b' d' where n: "a = int a'" "b = int b'" "d = int d'"
    unfolding inGrid_def by (metis nonneg_int_cases)
  with True have "a' < CHUNK_SIZE" "b' < CHUNK_HEIGHT" "d' < CHUNK_SIZE"
    by (simp_all add: inGrid_def)
  then have "c ! a' ! b' ! d' \<noteq> AIR" using assms by (simp add: allSolid_def)
  then show ?thesis using True n by (auto simp: getBlock_def inGrid_def)
next
  case False
  then show ?thesis by (auto simp: getBlock_def inGrid_def)
qed

lemma cellQuads_solid:
  assumes "allSolid c" "x < CHUNK_SIZE" "y < CHUNK_HEIGHT" "z < CHUNK_SIZE"
  shows "cellQuads c x y z =
     map (faceQuad x y z (c ! x ! y ! z))
       (filter (\<lambda>f. case dir f of (dx, dy, dz) \<Rightarrow> \<not> inGrid (int x + dx) (int y + dy) (int z + dz)) faces)"
proof -
  have "c ! x ! y ! z \<noteq> AIR" using assms by (simp add: allSolid_def)
  moreover have "shouldRenderFace c (int x) (int y) (int z) (dir f) \<longleftrightarrow>
      (case dir f of (dx, dy, dz) \<Rightarrow> \<not> inGrid (int x + dx) (int y + dy) (int z + dz))"
    for f :: face
    by (cases "dir f") (simp add: shouldRenderFace_def getBlock_solid [OF assms(1)])
  ultimately show ?thesis by (simp add: cellQuads_def)
qed

lemma sliceQuads_solid:
  assumes "allSolid c" "axis < 3" "s + 1 < [CHUNK_SIZE, CHUNK_HEIGHT, CHUNK_SIZE] ! axis"
  shows "sliceQuads c axis s = []"
proof -
  from assms(2) consider "axis = 0" | "axis = 1" | "axis = 2" by linarith
  then have "maskSpec c axis s i j = None" for i j
    using assms(3)
    by cases (auto simp: maskSpec_def Let_def getBlock_solid [OF assms(1)] inGrid_def)
  then show ?thesis using sliceQuads_empty [OF assms(2)] by simp
qed

section \<open>Single cell, solid grid and slab\<close>

lemma length_faces: "length faces = 6"
  by (simp add: faces_def)

lemma createSimple_sizes:
  assumes "length (simpleQuads c) = n" "0 < n"
  shows "\<exists>m. createSimpleChunkMesh c = Some m \<and> length (position m) = 3 * (4 * n) \<and>
             length (index m) = 3 * (2 * n)"
proof -
  have v: "length (bvertices (fold pushQuad (simpleQuads c) emptyBuffers)) = 12 * n"
    using length_bvertices [OF simpleQuads_corners, of c] assms(1) by simp
  have i: "length (bindices (fold pushQuad (simpleQuads c) emptyBuffers)) = 6 * n"
    using bindices_fold_pushQuad [of "simpleQuads c" emptyBuffers] assms(1)
    by (simp add: emptyBuffers_def)
  show ?thesis using v i assms(2) by (simp add: createSimpleChunkMesh_def finishMesh_def)
qed

lemma mergedQuad_normals:
  "qnormal (mergedQuad 0 s i j w h t) = (1, 0, 0)"
  "qnormal (mergedQuad (Suc 0) s i j w h t) = (0, 1, 0)"
  "qnormal (mergedQuad 2 s i j w h t) = (0, 0, 1)"
  by (simp_all add: mergedQuad_def Let_def)

text \<open>
  C1, as the code has it. For a grid whose only cell that is not Air is \<open>(x, y, z)\<close>, the
  naive mesher emits the six quads of that cell, one per entry of \<open>faces\<close>: 24 vertices
  and 12 triangles. The greedy mesher sweeps each axis in the positive direction only:
  for \<open>y < 16\<close> it emits three quads of size \<open>1 \<times> 1\<close>, with normals \<open>+X\<close>, \<open>+Y\<close>, \<open>+Z\<close>, and
  none for the three faces that look in a negative direction.
\<close>

theorem single_cell_meshes:
  assumes "isBox c x (x + 1) y (y + 1) z (z + 1) t"
  shows "simpleQuads c = map (faceQuad x y z t) faces \<and>
         length (simpleQuads c) = 6 \<and>
         (\<exists>m. createSimpleChunkMesh c = Some m \<and> length (position m) = 3 * 24 \<and>
              length (index m) = 3 * 12) \<and>
         (y < 16 \<longrightarrow>
            greedyQuads c = [mergedQuad 0 x y z 1 1 t, mergedQuad 1 y z x 1 1 t,
                             mergedQuad 2 z x y 1 1 t] \<and>
            map qnormal (greedyQuads c) = [(1, 0, 0), (0, 1, 0), (0, 0, 1)])"
proof -
  have s: "simpleQuads c = map (faceQuad x y z t) faces" by (rule simpleQuads_single [OF assms])
  then have l: "length (simpleQuads c) = 6" by (simp add: length_faces)
  from createSimple_sizes [OF l] have m: "\<exists>m. createSimpleChunkMesh c = Some m \<and>
      length (position m) = 3 * 24 \<and> length (index m) = 3 * 12" by simp
  have g: "greedyQuads c = [mergedQuad 0 x y z 1 1 t, mergedQuad 1 y z x 1 1 t,
                             mergedQuad 2 z x y 1 1 t]" if "y < 16"
    using greedyQuads_box [OF assms] that by simp
  then have "map qnormal (greedyQuads c) = [(1, 0, 0), (0, 1, 0), (0, 0, 1)]" if "y < 16"
    using that by (simp add: mergedQuad_normals)
  with s l m g show ?thesis by blast
qed

lemma isBox_single_fixture: "isBox (boxChunk 3 4 2 3 5 6 STONE) 3 (3 + 1) 2 (2 + 1) 5 (5 + 1) STONE"
  using isBox_boxChunk [of 3 4 2 3 5 6 STONE] by (simp add: CHUNK_SIZE_def CHUNK_HEIGHT_def)

theorem single_cell_meshes_witness:
  "(2::nat) < 16 \<and>
   length (simpleQuads (boxChunk 3 4 2 3 5 6 STONE)) = 6 \<and>
   map qnormal (greedyQuads (boxChunk 3 4 2 3 5 6 STONE)) = [(1, 0, 0), (0, 1, 0), (0, 0, 1)]"
proof -
  note r = single_cell_meshes [OF isBox_single_fixture]
  from r have "length (simpleQuads (boxChunk 3 4 2 3 5 6 STONE)) = 6" by blast
  moreover from r have "(2::nat) < 16 \<longrightarrow>
      map qnormal (greedyQuads (boxChunk 3 4 2 3 5 6 STONE)) = [(1, 0, 0), (0, 1, 0), (0, 0, 1)]"
    by blast
  ultimately show ?thesis by simp
qed

text \<open>The claim as stated fails at the grid whose only solid cell is Stone at
  \<open>(3, 2, 5)\<close>: the naive mesher emits six quads, the greedy mesher three, and the bottom
  quad of the naive mesher is not among them.\<close>

theorem greedy_single_cell_counterexample:
  "length (simpleQuads (boxChunk 3 4 2 3 5 6 STONE)) = 6 \<and>
   length (greedyQuads (boxChunk 3 4 2 3 5 6 STONE)) = 3 \<and>
   set (greedyQuads (boxChunk 3 4 2 3 5 6 STONE)) \<noteq> set (simpleQuads (boxChunk 3 4 2 3 5 6 STONE))"
proof -
  let ?c = "boxChunk 3 4 2 3 5 6 STONE"
  have s: "simpleQuads ?c = map (faceQuad 3 2 5 STONE) faces"
    by (rule simpleQuads_single [OF isBox_single_fixture])
  have g: "greedyQuads ?c = [mergedQuad 0 3 2 5 1 1 STONE, mergedQuad (Suc 0) 2 5 3 1 1 STONE,
                             mergedQuad 2 5 3 2 1 1 STONE]"
    using greedyQuads_box [OF isBox_single_fixture] by simp
  have "faceQuad 3 2 5 STONE (faces ! 3) \<in> set (simpleQuads ?c)"
    unfolding s by (simp add: faces_def)
  moreover have "faceQuad 3 2 5 STONE (faces ! 3) \<notin> set (greedyQuads ?c)"
    unfolding g by (simp add: faces_def faceQuad_def mergedQuad_def Let_def)
  ultimately have "set (greedyQuads ?c) \<noteq> set (simpleQuads ?c)" by blast
  then show ?thesis using s g by (simp add: length_faces)
qed

lemma filter_normal_box:
  assumes "isBox c x0 x1 y0 y1 z0 z1 t" "y1 \<le> 16"
  shows "filter (\<lambda>q. qnormal q = (0, 1, 0)) (greedyQuads c) =
           [mergedQuad 1 (y1 - 1) z0 x0 (z1 - z0) (x1 - x0) t]"
    and "filter (\<lambda>q. qnormal q = (0, -1, 0)) (greedyQuads c) = []"
  by (simp_all add: greedyQuads_box [OF assms] mergedQuad_normals)

text \<open>
  C2, as the code has it. In a grid without Air the naive mesher emits, for each cell,
  only the faces whose neighbour lies outside the grid, and the greedy mesher emits
  nothing in a slice whose successor along the sweep axis lies inside the grid: no quad
  at a face between two cells of the grid. For a one-block-thick slab of one block type
  with footprint \<open>W \<times> H\<close> at height \<open>y < 16\<close>, with Air around it, the greedy mesher emits
  exactly one quad with normal \<open>+Y\<close>, spanning the whole footprint, and no quad with
  normal \<open>-Y\<close>.
\<close>

theorem interior_faces_and_slab:
  "(allSolid c \<longrightarrow>
      (\<forall>x<CHUNK_SIZE. \<forall>y<CHUNK_HEIGHT. \<forall>z<CHUNK_SIZE.
         cellQuads c x y z =
           map (faceQuad x y z (c ! x ! y ! z))
             (filter (\<lambda>f. case dir f of (dx, dy, dz) \<Rightarrow>
                        \<not> inGrid (int x + dx) (int y + dy) (int z + dz)) faces)) \<and>
      (\<forall>axis<3. \<forall>s. s + 1 < [CHUNK_SIZE, CHUNK_HEIGHT, CHUNK_SIZE] ! axis \<longrightarrow>
         sliceQuads c axis s = [])) \<and>
   (isBox c' x0 (x0 + W) y (y + 1) z0 (z0 + H) t \<and> y < 16 \<longrightarrow>
      filter (\<lambda>q. qnormal q = (0, 1, 0)) (greedyQuads c') = [mergedQuad 1 y z0 x0 H W t] \<and>
      map (\<lambda>(a, b, d). (a, d)) (corners (mergedQuad 1 y z0 x0 H W t)) =
        [(int x0, int z0), (int x0, int z0 + int H), (int x0 + int W, int z0 + int H),
         (int x0 + int W, int z0)] \<and>
      filter (\<lambda>q. qnormal q = (0, -1, 0)) (greedyQuads c') = [])"
proof -
  have a: "cellQuads c x y z =
           map (faceQuad x y z (c ! x ! y ! z))
             (filter (\<lambda>f. case dir f of (dx, dy, dz) \<Rightarrow>
                        \<not> inGrid (int x + dx) (int y + dy) (int z + dz)) faces)"
    if "allSolid c" "x < CHUNK_SIZE" "y < CHUNK_HEIGHT" "z < CHUNK_SIZE" for x y z
    using that by (rule cellQuads_solid)
  have b: "sliceQuads c axis s = []"
    if "allSolid c" "axis < 3" "s + 1 < [CHUNK_SIZE, CHUNK_HEIGHT, CHUNK_SIZE] ! axis" for axis s
    using that by (rule sliceQuads_solid)
  have c: "filter (\<lambda>q. qnormal q = (0, 1, 0)) (greedyQuads c') = [mergedQuad 1 y z0 x0 H W t] \<and>
      filter (\<lambda>q. qnormal q = (0, -1, 0)) (greedyQuads c') = []"
    if "isBox c' x0 (x0 + W) y (y + 1) z0 (z0 + H) t" "y < 16"
    using filter_normal_box [OF that(1)] that(2) by simp
  have d: "map (\<lambda>(a, b, d). (a, d)) (corners (mergedQuad 1 y z0 x0 H W t)) =
        [(int x0, int z0), (int x0, int z0 + int H), (int x0 + int W, int z0 + int H),
         (int x0 + int W, int z0)]"
    by (simp add: mergedQuad_def Let_def)
  from a b c d show ?thesis by blast
qed

lemma allSolid_uniform: "allSolid (uniformChunk STONE)"
  by (simp add: allSolid_def uniformChunk_def)

lemma isBox_slab_fixture: "isBox (boxChunk 2 6 3 4 1 4 STONE) 2 (2 + 4) 3 (3 + 1) 1 (1 + 3) STONE"
  using isBox_boxChunk [of 2 6 3 4 1 4 STONE] by (simp add: CHUNK_SIZE_def CHUNK_HEIGHT_def)

theorem interior_faces_and_slab_witness:
  "(3::nat) < 16 \<and>
   cellQuads (uniformChunk STONE) 1 1 1 = [] \<and>
   sliceQuads (uniformChunk STONE) 0 0 = [] \<and>
   filter (\<lambda>q. qnormal q = (0, 1, 0)) (greedyQuads (boxChunk 2 6 3 4 1 4 STONE)) =
     [mergedQuad 1 3 1 2 3 4 STONE] \<and>
   filter (\<lambda>q. qnormal q = (0, -1, 0)) (greedyQuads (boxChunk 2 6 3 4 1 4 STONE)) = []"
proof -
  note r = interior_faces_and_slab [of "uniformChunk STONE" "boxChunk 2 6 3 4 1 4 STONE" 2 4 3 1 3 STONE]
  have h: "isBox (boxChunk 2 6 3 4 1 4 STONE) 2 (2 + 4) 3 (3 + 1) 1 (1 + 3) STONE \<and> (3::nat) < 16"
    using isBox_slab_fixture by simp
  from r allSolid_uniform have "cellQuads (uniformChunk STONE) 1 1 1 =
     map (faceQuad 1 1 1 (uniformChunk STONE ! 1 ! 1 ! 1))
       (filter (\<lambda>f. case dir f of (dx, dy, dz) \<Rightarrow>
                  \<not> inGrid (int 1 + dx) (int 1 + dy) (int 1 + dz)) faces)"
    by (simp add: CHUNK_SIZE_def CHUNK_HEIGHT_def)
  then have a: "cellQuads (uniformChunk STONE) 1 1 1 = []"
    by (simp add: faces_def inGrid_def CHUNK_SIZE_def CHUNK_HEIGHT_def)
  from r allSolid_uniform have "(0::nat) < 3 \<and> (0::nat) + 1 < [CHUNK_SIZE, CHUNK_HEIGHT, CHUNK_SIZE] ! 0 \<longrightarrow>
      sliceQuads (uniformChunk STONE) 0 0 = []" by blast
  then have b: "sliceQuads (uniformChunk STONE) 0 0 = []" by (simp add: CHUNK_SIZE_def)
  from r h have c: "filter (\<lambda>q. qnormal q = (0, 1, 0)) (greedyQuads (boxChunk 2 6 3 4 1 4 STONE)) =
     [mergedQuad 1 3 1 2 3 4 STONE] \<and>
   filter (\<lambda>q. qnormal q = (0, -1, 0)) (greedyQuads (boxChunk 2 6 3 4 1 4 STONE)) = []"
    by blast
  from a b c show ?thesis by simp
qed

text \<open>The claim as stated fails at the \<open>4 \<times> 3\<close> Stone slab with \<open>2 \<le> x < 6\<close>, \<open>y = 3\<close>,
  \<open>1 \<le> z < 4\<close>: the greedy mesher emits one top quad and no bottom quad.\<close>

theorem greedy_slab_bottom_counterexample:
  "length (filter (\<lambda>q. qnormal q = (0, -1, 0)) (greedyQuads (boxChunk 2 6 3 4 1 4 STONE))) = 0 \<and>
   length (filter (\<lambda>q. qnormal q = (0, 1, 0)) (greedyQuads (boxChunk 2 6 3 4 1 4 STONE))) = 1"
  using filter_normal_box [OF isBox_slab_fixture] by simp

section \<open>The greedy mesher above \<open>y = 15\<close>\<close>

text \<open>The rows of \<open>dims\<close> for the sweeps along Y and Z give the height 16 (\<open>dims[1][1]\<close>,
  \<open>dims[2][1]\<close>), so these sweeps do not reach a cell with \<open>y \<ge> 16\<close>: a box that lies
  above that height only gets its quad of the sweep along X. The statements about the
  greedy mesher above are therefore made for \<open>y < 16\<close>.\<close>

lemma sliceQuads_empty_in_range:
  assumes "axis < 3"
    and "\<forall>i<dims ! axis ! ((axis + 1) mod 3). \<forall>j<dims ! axis ! ((axis + 2) mod 3).
           maskSpec c axis s i j = None"
  shows "sliceQuads c axis s = []"
proof -
  from buildMask_maskIs [OF assms(1), of c s] assms(2)
  have "maskIs (buildMask c axis s) (dims ! axis ! ((axis + 1) mod 3))
           (dims ! axis ! ((axis + 2) mod 3)) (\<lambda>i j. None)"
    by (simp add: maskIs_def)
  then show ?thesis by (simp add: sliceQuads_def scanSlice_none)
qed

lemma greedyQuads_box_above_16:
  assumes "isBox c x0 x1 y0 y1 z0 z1 t" "16 \<le> y0"
  shows "greedyQuads c = [mergedQuad 0 (x1 - 1) y0 z0 (y1 - y0) (z1 - z0) t]"
proof -
  have t: "t \<noteq> AIR" using assms(1) by (simp add: isBox_def)
  have a1: "sliceQuads c (Suc 0) s = []" if "s < 16" for s
  proof (rule sliceQuads_empty_in_range)
    show "Suc 0 < 3" by simp
    show "\<forall>i<dims ! Suc 0 ! ((Suc 0 + 1) mod 3). \<forall>j<dims ! Suc 0 ! ((Suc 0 + 2) mod 3).
           maskSpec c (Suc 0) s i j = None"
      using that assms(2) by (simp add: maskSpec_def Let_def getBlock_box [OF assms(1)])
  qed
  have a2: "sliceQuads c 2 s = []" for s
  proof (rule sliceQuads_empty_in_range)
    show "(2::nat) < 3" by simp
    show "\<forall>i<dims ! 2 ! ((2 + 1) mod 3). \<forall>j<dims ! 2 ! ((2 + 2) mod 3).
           maskSpec c 2 s i j = None"
      using assms(2)
      by (simp add: maskSpec_def Let_def getBlock_box [OF assms(1)] dims_def CHUNK_SIZE_def)
  qed
  have "axisQuads c (Suc 0) = []" using a1 by (simp add: axisQuads_def dims_def CHUNK_SIZE_def)
  moreover have "axisQuads c 2 = []" using a2 by (simp add: axisQuads_def)
  ultimately show ?thesis
    by (simp add: greedyQuads_def upt_3 axisQuads_box_0 [OF assms(1)])
qed

text \<open>The Stone cell at \<open>(3, 20, 5)\<close>: one quad, from the sweep along X.\<close>

lemma greedy_single_cell_above_16:
  "greedyQuads (boxChunk 3 4 20 21 5 6 STONE) = [mergedQuad 0 3 20 5 1 1 STONE]"
  using greedyQuads_box_above_16 [OF isBox_boxChunk [of 3 4 20 21 5 6 STONE]]
  by (simp add: CHUNK_SIZE_def CHUNK_HEIGHT_def)

section \<open>Server: writes to the grid\<close>




lemma foldE_append:
  "foldE f (as @ bs) s = (case foldE f as s of Inl e \<Rightarrow> Inl e | Inr s' \<Rightarrow> foldE f bs s')"
  by (induction as arbitrary: s) (simp_all split: sum.splits)








section \<open>Tree placement\<close>














section \<open>Filling a column\<close>






section \<open>The column loops and the tree loop\<close>







section \<open>Layering\<close>





section \<open>Leaves in a column of Stone\<close>





















section \<open>What the chunk builder reads of the random source\<close>

lemma sameUpTo_mono: "sameUpTo j b1 b2 \<Longrightarrow> sameUpTo (Suc j) b1 b2"
  by (auto simp: sameUpTo_def agree_def)

lemma rel_sum_bind:
  assumes "rel_sum (=) R m1 m2"
    and "\<And>u1 u2. R u1 u2 \<Longrightarrow> rel_sum (=) S (g u1) (g u2)"
  shows "rel_sum (=) S (case m1 of Inl e \<Rightarrow> Inl e | Inr u \<Rightarrow> g u)
                       (case m2 of Inl e \<Rightarrow> Inl e | Inr u \<Rightarrow> g u)"
  using assms by (cases m1; cases m2) simp_all

lemma rel_sum_weaken:
  assumes "rel_sum (=) R m1 m2" "\<And>u1 u2. R u1 u2 \<Longrightarrow> S u1 u2"
  shows "rel_sum (=) S m1 m2"
  using assms by (cases m1; cases m2) simp_all

text \<open>A loop run from two states: a relation indexed by the elements processed.\<close>

lemma foldE_rel:
  assumes "Inv [] s1 s2"
    and "\<And>done a rest t1 t2. as = done @ a # rest \<Longrightarrow> Inv done t1 t2 \<Longrightarrow>
           rel_sum (=) (Inv (done @ [a])) (f a t1) (f a t2)"
  shows "rel_sum (=) (Inv as) (foldE f as s1) (foldE f as s2)"
proof -
  have gen: "rel_sum (=) (Inv (pre @ bs)) (foldE f bs t1) (foldE f bs t2)"
    if "as = pre @ bs" "Inv pre t1 t2" for pre bs t1 t2
    using that
  proof (induction bs arbitrary: pre t1 t2)
    case Nil
    then show ?case by simp
  next
    case (Cons a bs)
    have st: "rel_sum (=) (Inv (pre @ [a])) (f a t1) (f a t2)"
      by (rule assms(2) [OF Cons.prems])
    have "rel_sum (=) (Inv (pre @ a # bs)) (foldE f bs u1) (foldE f bs u2)"
      if "Inv (pre @ [a]) u1 u2" for u1 u2
      using Cons.IH [of "pre @ [a]" u1 u2] Cons.prems(1) that by simp
    from rel_sum_bind [OF st this] show ?case by simp
  qed
  from gen [of "[]" as s1 s2] assms(1) show ?thesis by simp
qed

lemma fillCell_same_below:
  assumes "y \<noteq> h - 1" "sameUpTo j b1 b2"
  shows "rel_sum (=) (sameUpTo j) (fillCell x z h y b1) (fillCell x z h y b2)"
  using assms by (auto simp: fillCell_def sameUpTo_def split: sum.splits)

lemma fillCell_same_top:
  assumes "j < 512" "sameUpTo j b1 b2"
  shows "rel_sum (=) (sameUpTo (Suc j)) (fillCell x z h (h - 1) b1) (fillCell x z h (h - 1) b2)"
proof -
  have g: "grid b1 = grid b2" "treePositions b1 = treePositions b2"
    "length (treePositions b1) \<le> j" "agree (512 - j) (rand b1) (rand b2)"
    using assms(2) by (auto simp: sameUpTo_def)
  have r0: "rand b1 0 = rand b2 0" using g(4) assms(1) by (simp add: agree_def)
  have sh: "agree (512 - Suc j) (\<lambda>n. rand b1 (Suc n)) (\<lambda>n. rand b2 (Suc n))"
    using g(4) by (auto simp: agree_def)
  have sm: "agree (512 - Suc j) (rand b1) (rand b2)" using g(4) by (simp add: agree_def)
  show ?thesis
  proof (cases "writeCell (grid b2) x (h - 1) z GRASS")
    case (Inl e)
    then show ?thesis using g(1) by (simp add: fillCell_def)
  next
    case (Inr c')
    then show ?thesis using g r0 sh sm
      by (simp add: fillCell_def Math_random_def sameUpTo_def)
  qed
qed

lemma terrain_same:
  assumes "j < 512" "sameUpTo j b1 b2"
  shows "rel_sum (=) (sameUpTo (Suc j)) (foldE (fillCell x z h) [0..h - 1] b1)
                                       (foldE (fillCell x z h) [0..h - 1] b2)"
proof (cases "0 \<le> h - 1")
  case False
  then have "[0..h - 1] = []" by simp
  then show ?thesis using sameUpTo_mono [OF assms(2)] by simp
next
  case True
  then have split: "[0..h - 1] = [0..h - 1 - 1] @ [h - 1]" by (rule upto_rec2)
  have below: "rel_sum (=) (sameUpTo j) (foldE (fillCell x z h) [0..h - 1 - 1] b1)
                                        (foldE (fillCell x z h) [0..h - 1 - 1] b2)"
  proof (rule foldE_rel [where Inv = "\<lambda>done. sameUpTo j"])
    show "sameUpTo j b1 b2" by (rule assms(2))
  next
    fix "done" a rest t1 t2
    assume as: "[0..h - 1 - 1] = done @ a # rest" and t: "sameUpTo j t1 t2"
    have "a \<in> set [0..h - 1 - 1]" unfolding as by simp
    then have "a \<noteq> h - 1" by simp
    then show "rel_sum (=) (sameUpTo j) (fillCell x z h a t1) (fillCell x z h a t2)"
      using t by (rule fillCell_same_below)
  qed
  have top: "rel_sum (=) (sameUpTo (Suc j)) (foldE (fillCell x z h) [h - 1] u1)
                                            (foldE (fillCell x z h) [h - 1] u2)"
    if "sameUpTo j u1 u2" for u1 u2
    using fillCell_same_top [OF assms(1) that, of x z h]
    by (cases "fillCell x z h (h - 1) u1"; cases "fillCell x z h (h - 1) u2") simp_all
  from rel_sum_bind [OF below top] show ?thesis unfolding split foldE_append .
qed

lemma water_same:
  assumes "sameUpTo j b1 b2"
  shows "rel_sum (=) (sameUpTo j) (fillWater x z h b1) (fillWater x z h b2)"
proof (cases "h < WATER_LEVEL")
  case False
  then show ?thesis using assms by (simp add: fillWater_def)
next
  case True
  let ?f = "\<lambda>y b. case writeCell (grid b) x y z WATER of
                        Inl e \<Rightarrow> Inl e
                      | Inr chunk' \<Rightarrow> Inr (b\<lparr>grid := chunk'\<rparr>)"
  have "rel_sum (=) (sameUpTo j) (foldE ?f [h..WATER_LEVEL - 1] b1) (foldE ?f [h..WATER_LEVEL - 1] b2)"
  proof (rule foldE_rel [where Inv = "\<lambda>done. sameUpTo j"])
    show "sameUpTo j b1 b2" by (rule assms)
  next
    fix "done" :: "int list" and a rest t1 t2
    assume t: "sameUpTo j t1 t2"
    then show "rel_sum (=) (sameUpTo j) (?f a t1) (?f a t2)"
      by (auto simp: sameUpTo_def split: sum.splits)
  qed
  then show ?thesis using True by (simp add: fillWater_def)
qed

lemma fillColumn_same:
  assumes "j < 512" "sameUpTo j b1 b2"
  shows "rel_sum (=) (sameUpTo (Suc j)) (fillColumn heightMap x z b1) (fillColumn heightMap x z b2)"
  unfolding fillColumn_def Let_def
  by (rule rel_sum_bind [OF terrain_same [OF assms]]) (rule water_same)

lemma column_loop_same:
  assumes "j + CHUNK_SIZE \<le> 512" "sameUpTo j b1 b2"
  shows "rel_sum (=) (sameUpTo (j + CHUNK_SIZE))
           (foldE (\<lambda>z b. fillColumn heightMap x z b) [0..<CHUNK_SIZE] b1)
           (foldE (\<lambda>z b. fillColumn heightMap x z b) [0..<CHUNK_SIZE] b2)"
proof -
  have "rel_sum (=) (sameUpTo (j + length [0..<CHUNK_SIZE]))
           (foldE (\<lambda>z b. fillColumn heightMap x z b) [0..<CHUNK_SIZE] b1)
           (foldE (\<lambda>z b. fillColumn heightMap x z b) [0..<CHUNK_SIZE] b2)"
  proof (rule foldE_rel [where Inv = "\<lambda>done. sameUpTo (j + length done)"])
    show "sameUpTo (j + length []) b1 b2" using assms(2) by simp
  next
    fix "done" :: "nat list" and a rest t1 t2
    assume as: "[0..<CHUNK_SIZE] = done @ a # rest" and t: "sameUpTo (j + length done) t1 t2"
    have "length [0..<CHUNK_SIZE] = length (done @ a # rest)" unfolding as ..
    then have "length done < CHUNK_SIZE" by simp
    then have "j + length done < 512" using assms(1) by simp
    from fillColumn_same [OF this t]
    show "rel_sum (=) (sameUpTo (j + length (done @ [a])))
            (fillColumn heightMap x a t1) (fillColumn heightMap x a t2)" by simp
  qed
  then show ?thesis by simp
qed

lemma fillTerrain_same:
  assumes "sameUpTo 0 b1 b2"
  shows "rel_sum (=) (sameUpTo (CHUNK_SIZE * CHUNK_SIZE)) (fillTerrain heightMap b1) (fillTerrain heightMap b2)"
proof -
  let ?f = "\<lambda>x b. foldE (\<lambda>z b. fillColumn heightMap x z b) [0..<CHUNK_SIZE] b"
  have "rel_sum (=) (sameUpTo (CHUNK_SIZE * length [0..<CHUNK_SIZE]))
           (foldE ?f [0..<CHUNK_SIZE] b1) (foldE ?f [0..<CHUNK_SIZE] b2)"
  proof (rule foldE_rel [where Inv = "\<lambda>done. sameUpTo (CHUNK_SIZE * length done)"])
    show "sameUpTo (CHUNK_SIZE * length []) b1 b2" using assms by simp
  next
    fix "done" :: "nat list" and a rest t1 t2
    assume as: "[0..<CHUNK_SIZE] = done @ a # rest"
      and t: "sameUpTo (CHUNK_SIZE * length done) t1 t2"
    have "length [0..<CHUNK_SIZE] = length (done @ a # rest)" unfolding as ..
    then have "length done < CHUNK_SIZE" by simp
    then have "Suc (length done) \<le> CHUNK_SIZE" by simp
    then have "CHUNK_SIZE * Suc (length done) \<le> CHUNK_SIZE * CHUNK_SIZE" by (rule mult_le_mono2)
    then have "CHUNK_SIZE * length done + CHUNK_SIZE \<le> 512" by (simp add: CHUNK_SIZE_def)
    from column_loop_same [OF this t]
    show "rel_sum (=) (sameUpTo (CHUNK_SIZE * length (done @ [a]))) (?f a t1) (?f a t2)"
      by (simp add: add.commute)
  qed
  then show ?thesis by (simp add: fillTerrain_def)
qed

lemma generateTree_same:
  assumes "agree (Suc k) r1 r2"
  shows "rel_sum (=) (\<lambda>p1 p2. fst p1 = fst p2 \<and> agree k (snd p1) (snd p2))
           (generateTree chunk x y z r1) (generateTree chunk x y z r2)"
proof -
  have r0: "r1 0 = r2 0" using assms by (simp add: agree_def)
  have sh: "agree k (\<lambda>n. r1 (Suc n)) (\<lambda>n. r2 (Suc n))" using assms by (simp add: agree_def)
  show ?thesis using r0 sh
    by (simp add: generateTree_def Math_random_def Let_def split: sum.splits)
qed

lemma placeTrees_same:
  assumes "sameUpTo (CHUNK_SIZE * CHUNK_SIZE) b1 b2"
  shows "rel_sum (=) (\<lambda>u1 u2. grid u1 = grid u2) (placeTrees b1) (placeTrees b2)"
proof -
  let ?f = "\<lambda>treePos b. case treePos of (tx, ty, tz) \<Rightarrow>
              (case generateTree (grid b) tx ty tz (rand b) of
                 Inl e \<Rightarrow> Inl e
               | Inr (chunk', rnd') \<Rightarrow> Inr (b\<lparr>grid := chunk', rand := rnd'\<rparr>))"
  let ?L = "treePositions b1"
  have g: "grid b1 = grid b2" "treePositions b2 = ?L" "length ?L \<le> 256" "agree 256 (rand b1) (rand b2)"
    using assms by (auto simp: sameUpTo_def CHUNK_SIZE_def)
  have "rel_sum (=) (\<lambda>(u1 :: builder) u2. grid u1 = grid u2 \<and> agree (256 - length ?L) (rand u1) (rand u2))
          (foldE ?f ?L b1) (foldE ?f ?L b2)"
  proof (rule foldE_rel [where Inv = "\<lambda>done (u1 :: builder) u2. grid u1 = grid u2 \<and>
           agree (256 - length done) (rand u1) (rand u2)"])
    show "grid b1 = grid b2 \<and> agree (256 - length []) (rand b1) (rand b2)" using g by simp
  next
    fix "done" :: "(int \<times> int \<times> int) list" and a rest and t1 t2 :: builder
    assume as: "?L = done @ a # rest"
      and t: "grid t1 = grid t2 \<and> agree (256 - length done) (rand t1) (rand t2)"
    obtain tx ty tz where a: "a = (tx, ty, tz)" by (cases a)
    have "length ?L = length (done @ a # rest)" unfolding as ..
    then have "length done < 256" using g(3) by simp
    then have "256 - length done = Suc (256 - length (done @ [a]))" by simp
    with t have ag: "agree (Suc (256 - length (done @ [a]))) (rand t1) (rand t2)" by simp
    from generateTree_same [OF ag, of "grid t2" tx ty tz] t
    show "rel_sum (=) (\<lambda>u1 u2. grid u1 = grid u2 \<and> agree (256 - length (done @ [a])) (rand u1) (rand u2))
            (?f a t1) (?f a t2)"
      unfolding a
      by (cases "generateTree (grid t2) tx ty tz (rand t1)";
          cases "generateTree (grid t2) tx ty tz (rand t2)") auto
  qed
  then have "rel_sum (=) (\<lambda>u1 u2. grid u1 = grid u2) (foldE ?f ?L b1) (foldE ?f ?L b2)"
    by (rule rel_sum_weaken) simp
  then show ?thesis using g(2) by (simp add: placeTrees_def)
qed

section \<open>Determinism\<close>

lemma generateChunk_agree:
  assumes "generateHeightMap noise1 chunkX chunkZ = generateHeightMap noise2 chunkX chunkZ"
    and "agree 512 rnd1 rnd2"
  shows "map_sum id fst (generateChunk noise1 rnd1 chunkX chunkZ) =
         map_sum id fst (generateChunk noise2 rnd2 chunkX chunkZ)"
proof -
  let ?hm = "generateHeightMap noise2 chunkX chunkZ"
  let ?b1 = "\<lparr>grid = initChunk, treePositions = [], rand = rnd1\<rparr>"
  let ?b2 = "\<lparr>grid = initChunk, treePositions = [], rand = rnd2\<rparr>"
  have s0: "sameUpTo 0 ?b1 ?b2" using assms(2) by (simp add: sameUpTo_def)
  have t: "rel_sum (=) (sameUpTo (CHUNK_SIZE * CHUNK_SIZE))
             (terrainPhase noise1 rnd1 chunkX chunkZ) (terrainPhase noise2 rnd2 chunkX chunkZ)"
    using fillTerrain_same [OF s0, of ?hm] by (simp add: terrainPhase_def assms(1))
  have "rel_sum (=) (\<lambda>u1 u2. grid u1 = grid u2)
     (case terrainPhase noise1 rnd1 chunkX chunkZ of Inl e \<Rightarrow> Inl e | Inr u \<Rightarrow> placeTrees u)
     (case terrainPhase noise2 rnd2 chunkX chunkZ of Inl e \<Rightarrow> Inl e | Inr u \<Rightarrow> placeTrees u)"
    by (rule rel_sum_bind [OF t]) (rule placeTrees_same)
  then show ?thesis
    by (cases "terrainPhase noise1 rnd1 chunkX chunkZ"; cases "terrainPhase noise2 rnd2 chunkX chunkZ")
       (auto simp: generateChunk_def split: sum.splits)
qed

text \<open>
  C8. \<open>generateHeightMap\<close> and \<open>generateChunk\<close> read nothing but their arguments, the noise
  function and \<open>Math.random\<close>. Two calls with the same chunk coordinates return the same
  height map once the noise functions agree on the points the loops sample, and the same
  grid once, in addition, the random sources agree on their first 512 numbers (one draw
  per column at most, and one per tree); in particular when the noise function and the
  random source are the same.
\<close>

theorem generation_deterministic:
  assumes "\<forall>x<CHUNK_SIZE. \<forall>z<CHUNK_SIZE. \<forall>p \<in> set (noiseSamples chunkX chunkZ x z).
             noise1 (fst p) (snd p) = noise2 (fst p) (snd p)"
    and "\<forall>n<512. rnd1 n = rnd2 n"
  shows "generateHeightMap noise1 chunkX chunkZ = generateHeightMap noise2 chunkX chunkZ \<and>
         map_sum id fst (generateChunk noise1 rnd1 chunkX chunkZ) =
         map_sum id fst (generateChunk noise2 rnd2 chunkX chunkZ)"
proof -
  have h: "generateHeightMap noise1 chunkX chunkZ = generateHeightMap noise2 chunkX chunkZ"
    by (rule generateHeightMap_agree [OF assms(1)])
  have a: "agree 512 rnd1 rnd2" using assms(2) by (simp add: agree_def)
  from h generateChunk_agree [OF h a] show ?thesis by simp
qed

lemma samples_far_from_origin:
  assumes "p \<in> set (noiseSamples 3 7 x z)"
  shows "\<not> fst p < 2 / 5"
proof -
  let ?wx = "real_of_int (3 * int CHUNK_SIZE + int x)"
  have wx: "48 \<le> ?wx" by (simp add: CHUNK_SIZE_def)
  have m: "48 * (1 / 100) \<le> ?wx * MOUNTAIN_SCALE"
    unfolding MOUNTAIN_SCALE_def using wx by (intro mult_mono) simp_all
  have t: "48 * (1 / 50) \<le> ?wx * (TERRAIN_SCALE * 2 ^ i)" for i :: nat
  proof -
    have "(1::real) \<le> 2 ^ i" by simp
    then have "(1 / 50 :: real) * 1 \<le> TERRAIN_SCALE * 2 ^ i"
      unfolding TERRAIN_SCALE_def by (intro mult_mono) simp_all
    with wx show ?thesis by (intro mult_mono) simp_all
  qed
  let ?wz = "real_of_int (7 * int CHUNK_SIZE + int z)"
  from assms have "p \<in> (\<lambda>i. (?wx * (TERRAIN_SCALE * 2 ^ i), ?wz * (TERRAIN_SCALE * 2 ^ i))) ` set [0..<OCTAVES]
      \<or> p = (?wx * MOUNTAIN_SCALE, ?wz * MOUNTAIN_SCALE)"
    unfolding noiseSamples_def Let_def
    by (simp only: set_append set_map Un_iff list.set insert_iff empty_iff simp_thms)
  then show ?thesis
  proof (elim disjE imageE)
    fix i
    assume "p = (?wx * (TERRAIN_SCALE * 2 ^ i), ?wz * (TERRAIN_SCALE * 2 ^ i))"
    then have "fst p = ?wx * (TERRAIN_SCALE * 2 ^ i)" by (simp only: fst_conv)
    with t [of i] show ?thesis by linarith
  next
    assume "p = (?wx * MOUNTAIN_SCALE, ?wz * MOUNTAIN_SCALE)"
    then have "fst p = ?wx * MOUNTAIN_SCALE" by (simp only: fst_conv)
    with m show ?thesis by linarith
  qed
qed

theorem generation_deterministic_witness:
  "generateHeightMap (\<lambda>a b. 0) 3 7 = generateHeightMap (\<lambda>a b. if a < 2 / 5 then 1 else 0) 3 7 \<and>
   map_sum id fst (generateChunk (\<lambda>a b. 0) (\<lambda>n. 0) 3 7) =
   map_sum id fst (generateChunk (\<lambda>a b. if a < 2 / 5 then 1 else 0)
                                 (\<lambda>n. if n < 512 then 0 else 1 / 2) 3 7)"
proof (rule generation_deterministic)
  show "\<forall>x<CHUNK_SIZE. \<forall>z<CHUNK_SIZE. \<forall>p \<in> set (noiseSamples 3 7 x z).
          (\<lambda>a b. 0 :: real) (fst p) (snd p) = (\<lambda>a b. if a < 2 / 5 then 1 else 0) (fst p) (snd p)"
    using samples_far_from_origin by simp
  show "\<forall>n<512. (\<lambda>n. 0 :: real) n = (\<lambda>n. if n < 512 then 0 else 1 / 2) n" by simp
qed

end
